theory Spec2Isabelle
  imports Main "HOL-Library.Word"
begin

unbundle bit_operations_syntax

section \<open>The Solaris backend of libusb: device discovery\<close>

text \<open>
  A shallow embedding of \<^verbatim>\<open>libusb/os/solaris_usb.c\<close>. The file walks
  \<^verbatim>\<open>/dev/usb/<VID>.<PID>/<instance>/devstat\<close>, resolves every witness file to
  its node under \<^verbatim>\<open>/devices\<close>, and queries libdevinfo for the integer
  properties of that node. C strings are \<open>string\<close>s without the terminating NUL; a C
  \<^verbatim>\<open>int\<close> that holds data is a 32-bit word read with \<open>sint\<close>; return codes that
  are only compared with small constants are \<open>int\<close>.
\<close>

subsection \<open>Data\<close>

type_synonym c_int = "32 word"

text \<open>\<^verbatim>\<open>unsigned long\<close> of the LP64 data model.\<close>

type_synonym c_ulong = "64 word"

text \<open>The values of \<^verbatim>\<open>enum libusb_speed\<close> the file assigns.\<close>

datatype libusb_speed =
    LIBUSB_SPEED_LOW
  | LIBUSB_SPEED_FULL
  | LIBUSB_SPEED_HIGH
  | LIBUSB_SPEED_SUPER

text \<open>The values of \<^verbatim>\<open>enum libusb_error\<close> the file returns.\<close>

datatype libusb_error =
    LIBUSB_ERROR_INVALID_PARAM
  | LIBUSB_ERROR_ACCESS
  | LIBUSB_ERROR_NO_DEVICE
  | LIBUSB_ERROR_NOT_SUPPORTED
  | LIBUSB_ERROR_NO_MEM

definition dev_usb :: string where
  "dev_usb = ''/dev/usb''"

definition devices :: string where
  "devices = ''/devices''"

definition devices_len :: nat where
  "devices_len = length devices"

subsection \<open>Diagnostics and resources\<close>

text \<open>
  Everything the code does besides computing is recorded, in order, in a trace: the
  messages of \<^verbatim>\<open>usbi_dbg\<close>, \<^verbatim>\<open>usbi_info\<close>, \<^verbatim>\<open>usbi_warn\<close> and
  \<^verbatim>\<open>usbi_err\<close> with their level and arguments (the \<^verbatim>\<open>strerror\<close> text is left
  out), every handle that is obtained or given back, and a write past the end of a
  named buffer.
\<close>

datatype loglevel = LOG_DEBUG | LOG_INFO | LOG_WARNING | LOG_ERROR

datatype msg =
    Looking_for string
  | Found_prop string c_int
  | Prop_empty string
  | Prop_failed string
  | Prop_values int string
  | Device_node string
  | Di_init_failed
  | Parse_devaddr_failed
  | Session c_int c_int c_ulong
  | Regcomp_failed
  | Opendir_failed string
  | Opendir_failed_skipping string
  | Start_browsing string
  | Stop_browsing string
  | Skipping string
  | Found_entry string
  | Vidpid_snprintf_failed
  | Found_instance string
  | Found_ugen string string
  | Devstat_snprintf_failed
  | Realpath_failed string
  | Device_path string
  | Not_under_devices string
  | No_colon

datatype resource = Regex | Dir string | Node string

datatype event = Log loglevel msg | Acquire resource | Release resource | Overrun string

text \<open>
  The state threaded through discovery: the collection \<^verbatim>\<open>discdevs\<close> the caller
  passes in (its element type is never inspected by this file) and the trace.
\<close>

record 'd state =
  discdevs :: "'d list"
  trace :: "event list"

definition emit :: "'d state \<Rightarrow> event list \<Rightarrow> 'd state" where
  "emit s evs = s\<lparr>trace := trace s @ evs\<rparr>"

text \<open>
  Writing past the end of a buffer is undefined behaviour. The pass stops there: a state
  whose last event is such a write is halted, and a halted pass runs no further code and
  returns nothing.
\<close>

definition is_overrun :: "event \<Rightarrow> bool" where
  "is_overrun e = (case e of Overrun b \<Rightarrow> True | _ \<Rightarrow> False)"

definition halting :: "event list \<Rightarrow> bool" where
  "halting evs = (evs \<noteq> [] \<and> is_overrun (last evs))"

definition halted :: "'d state \<Rightarrow> bool" where
  "halted s = halting (trace s)"

subsection \<open>The C library\<close>

text \<open>
  \<^verbatim>\<open>strrchr (s, c)\<close>: the index of the last occurrence of \<open>c\<close> in \<open>s\<close>, \<open>None\<close>
  for the null pointer.
\<close>

fun strrchr :: "string \<Rightarrow> char \<Rightarrow> nat option" where
  "strrchr [] c = None"
| "strrchr (x # xs) c =
     (case strrchr xs c of
        Some i \<Rightarrow> Some (Suc i)
      | None \<Rightarrow> if x = c then Some 0 else None)"

text \<open>
  \<^verbatim>\<open>atoi\<close>: white space is skipped, an optional sign is read, then decimal digits
  up to the first other character. A value outside the range of \<^verbatim>\<open>int\<close> is
  undefined in C; here it wraps.
\<close>

definition isspace :: "char \<Rightarrow> bool" where
  "isspace c = (c \<in> set [CHR '' '', CHR 0x09, CHR 0x0A, CHR 0x0B, CHR 0x0C, CHR 0x0D])"

definition isdigit :: "char \<Rightarrow> bool" where
  "isdigit c = (c \<in> set ''0123456789'')"

definition digit_val :: "char \<Rightarrow> int" where
  "digit_val c = int (of_char c) - 48"

fun digits_val :: "int \<Rightarrow> string \<Rightarrow> int" where
  "digits_val acc [] = acc"
| "digits_val acc (c # cs) =
     (if isdigit c then digits_val (10 * acc + digit_val c) cs else acc)"

definition atoi :: "string \<Rightarrow> c_int" where
  "atoi s =
     (case dropWhile isspace s of
        [] \<Rightarrow> 0
      | c # cs \<Rightarrow>
          if c = CHR ''-'' then word_of_int (- digits_val 0 cs)
          else if c = CHR ''+'' then word_of_int (digits_val 0 cs)
          else word_of_int (digits_val 0 (c # cs)))"

subsection \<open>libdevinfo\<close>

text \<open>
  A snapshot of a device node, as \<^verbatim>\<open>di_prop_lookup_ints\<close> sees it: for a property
  name, the return value of the lookup and the integer its result pointer points to
  (read only when the lookup returns 1).
\<close>

type_synonym di_node = "string \<Rightarrow> int \<times> c_int"

text \<open>
  \<^verbatim>\<open>di_prop_get_int\<close>. The cell \<open>out\<close> is \<open>None\<close> for a null pointer; the result is
  the trace, the return value, and the cell afterwards.
\<close>

definition di_prop_get_int ::
  "di_node \<Rightarrow> string \<Rightarrow> c_int option \<Rightarrow> event list \<times> int \<times> c_int option" where
  "di_prop_get_int dn propname out =
     (let (retval, intp) = dn propname
      in if retval = 1 then
           ([Log LOG_DEBUG (Looking_for propname), Log LOG_DEBUG (Found_prop propname intp)],
            retval, (case out of None \<Rightarrow> None | Some _ \<Rightarrow> Some intp))
         else if retval = 0 then
           ([Log LOG_DEBUG (Looking_for propname), Log LOG_DEBUG (Prop_empty propname)],
            retval, out)
         else if retval < 0 then
           ([Log LOG_DEBUG (Looking_for propname), Log LOG_DEBUG (Prop_failed propname)],
            retval, out)
         else
           ([Log LOG_DEBUG (Looking_for propname), Log LOG_DEBUG (Prop_values retval propname)],
            retval, out))"

subsection \<open>The resolver: \<^verbatim>\<open>solaris_add_device\<close>\<close>

text \<open>The local variables of \<^verbatim>\<open>solaris_add_device\<close> when \<^verbatim>\<open>session_id\<close> has been assigned.\<close>

record identity =
  busnum :: c_int
  devaddr :: c_int
  numconf :: c_int
  session_id :: c_ulong
  speed :: libusb_speed

text \<open>
  The chain of four probes. Every probe passes a null pointer, so only the return value
  of the lookup is used.
\<close>

definition probe_speed :: "di_node \<Rightarrow> event list \<times> libusb_speed" where
  "probe_speed dn =
     (let (e1, r1, _) = di_prop_get_int dn ''low-speed'' None
      in if 0 \<le> r1 then (e1, LIBUSB_SPEED_LOW)
         else
           let (e2, r2, _) = di_prop_get_int dn ''full-speed'' None
           in if 0 \<le> r2 then (e1 @ e2, LIBUSB_SPEED_FULL)
              else
                let (e3, r3, _) = di_prop_get_int dn ''high-speed'' None
                in if 0 \<le> r3 then (e1 @ e2 @ e3, LIBUSB_SPEED_HIGH)
                   else
                     let (e4, r4, _) = di_prop_get_int dn ''super-speed'' None
                     in if 0 \<le> r4 then (e1 @ e2 @ e3 @ e4, LIBUSB_SPEED_SUPER)
                        else (e1 @ e2 @ e3 @ e4, LIBUSB_SPEED_FULL))"

text \<open>
  The part of \<^verbatim>\<open>solaris_add_device\<close> that works with the open node, up to the label
  \<^verbatim>\<open>cleanup\<close>: the trace, and the locals if \<^verbatim>\<open>session_id\<close> was computed (\<open>None\<close> for
  every \<^verbatim>\<open>goto cleanup\<close>). \<^verbatim>\<open>busnum << 8 | devaddr\<close> is computed in \<^verbatim>\<open>int\<close> and
  converted to \<^verbatim>\<open>unsigned long\<close>, which extends the sign.
\<close>

definition add_device_node :: "di_node \<Rightarrow> string \<Rightarrow> event list \<times> identity option" where
  "add_device_node devnode device_node_path =
     (let (e1, r1, busnum') = di_prop_get_int devnode ''assigned-address'' (Some 0)
      in if 1 \<noteq> r1 then (e1, None)
         else
           let (e2, r2, numconf') = di_prop_get_int devnode ''usb-num-configs'' (Some 1)
           in if 1 \<noteq> r2 then (e1 @ e2, None)
              else
                let (e3, speed') = probe_speed devnode
                in case strrchr device_node_path CHR ''@'' of
                     None \<Rightarrow> (e1 @ e2 @ e3 @ [Log LOG_ERROR Parse_devaddr_failed], None)
                   | Some at \<Rightarrow>
                       let b = (case busnum' of Some v \<Rightarrow> v | None \<Rightarrow> 0);
                           n = (case numconf' of Some v \<Rightarrow> v | None \<Rightarrow> 1);
                           d = atoi (drop (Suc at) device_node_path);
                           sid = (scast (push_bit 8 b OR d) :: c_ulong)
                       in (e1 @ e2 @ e3 @ [Log LOG_DEBUG (Session b d sid)],
                           Some \<lparr>busnum = b, devaddr = d, numconf = n,
                                 session_id = sid, speed = speed'\<rparr>))"

text \<open>
  What the file reads from the system in one discovery pass: whether \<^verbatim>\<open>regcomp\<close>
  succeeds, which directories \<^verbatim>\<open>opendir\<close> opens and the names \<^verbatim>\<open>readdir\<close> then
  returns in order, what \<^verbatim>\<open>realpath\<close> resolves, and which nodes \<^verbatim>\<open>di_init\<close>
  opens.
\<close>

record sys_env =
  regcomp_ok :: bool
  opendir :: "string \<Rightarrow> string list option"
  realpath :: "string \<Rightarrow> string option"
  di_init :: "string \<Rightarrow> di_node option"

text \<open>
  \<^verbatim>\<open>solaris_add_device\<close>. The function returns nothing and never writes through
  \<^verbatim>\<open>discdevs\<close>; its whole effect is the trace.
\<close>

definition solaris_add_device :: "sys_env \<Rightarrow> 'd state \<Rightarrow> string \<Rightarrow> 'd state" where
  "solaris_add_device env s device_node_path =
     (let s1 = emit s [Log LOG_INFO (Device_node device_node_path)]
      in case di_init env device_node_path of
           None \<Rightarrow> emit s1 [Log LOG_ERROR Di_init_failed]
         | Some devnode \<Rightarrow>
             emit s1 (Acquire (Node device_node_path)
                      # fst (add_device_node devnode device_node_path)
                      @ [Release (Node device_node_path)]))"

text \<open>
  The locals of \<^verbatim>\<open>solaris_add_device\<close> for a path, when the node opens and
  \<^verbatim>\<open>session_id\<close> is computed.
\<close>

definition derived_identity :: "sys_env \<Rightarrow> string \<Rightarrow> identity option" where
  "derived_identity env device_node_path =
     (case di_init env device_node_path of
        None \<Rightarrow> None
      | Some devnode \<Rightarrow> snd (add_device_node devnode device_node_path))"

subsection \<open>The pattern for group directories\<close>

text \<open>
  \<^verbatim>\<open>regexec\<close> on the pattern \<^verbatim>\<open>[0-9a-f]+\.[0-9a-f]+\<close> compiled with
  \<^verbatim>\<open>REG_EXTENDED\<close>: 0 if some substring of the name matches, \<^verbatim>\<open>REG_NOMATCH\<close>
  otherwise. A match that starts at a given place exists exactly if the longest run of
  hexadecimal digits there is not empty and is followed by a dot and one more digit.
\<close>

definition hexdigit :: "char \<Rightarrow> bool" where
  "hexdigit c = (c \<in> set ''0123456789abcdef'')"

definition match_here :: "string \<Rightarrow> bool" where
  "match_here s =
     (takeWhile hexdigit s \<noteq> [] \<and>
      (case dropWhile hexdigit s of
         d # h # _ \<Rightarrow> d = CHR ''.'' \<and> hexdigit h
       | _ \<Rightarrow> False))"

definition REG_NOMATCH :: int where
  "REG_NOMATCH = 1"

definition regexec :: "string \<Rightarrow> int" where
  "regexec name =
     (if list_ex (\<lambda>i. match_here (drop i name)) [0..<length name] then 0 else REG_NOMATCH)"

text \<open>The language of the pattern, and the names with a substring in it.\<close>

definition vidpid_lang :: "string \<Rightarrow> bool" where
  "vidpid_lang w =
     (\<exists>a b. w = a @ ''.'' @ b \<and> a \<noteq> [] \<and> b \<noteq> [] \<and> list_all hexdigit a \<and> list_all hexdigit b)"

definition contains_vidpid :: "string \<Rightarrow> bool" where
  "contains_vidpid name = (\<exists>pre w post. name = pre @ w @ post \<and> vidpid_lang w)"

text \<open>
  The anchored pattern \<^verbatim>\<open>^[0-9a-f]+\.[0-9a-f]+$\<close> of the specification, for
  comparison: the entire name is digits, a dot, digits.
\<close>

definition spec_anchored_match :: "string \<Rightarrow> bool" where
  "spec_anchored_match name =
     (takeWhile hexdigit name \<noteq> [] \<and>
      (case dropWhile hexdigit name of
         d # b \<Rightarrow> d = CHR ''.'' \<and> b \<noteq> [] \<and> list_all hexdigit b
       | [] \<Rightarrow> False))"

subsection \<open>The walker: \<^verbatim>\<open>solaris_get_device_list\<close>\<close>

text \<open>\<^verbatim>\<open>'.' == d_name[0]\<close>; the first byte of an empty name is the NUL.\<close>

definition dotfile :: "string \<Rightarrow> bool" where
  "dotfile name = (case name of [] \<Rightarrow> False | c # _ \<Rightarrow> c = CHR ''.'')"

text \<open>The sizes of the three path buffers, \<^verbatim>\<open>sizeof\<close> of the literals with their NUL.\<close>

definition vidpid_path_size :: nat where
  "vidpid_path_size = length ''/dev/usb/vvvv.pppp'' + 1"

definition devstat_path_size :: nat where
  "devstat_path_size = length ''/dev/usb/vvvv.pppp/iiii/devstat'' + 1"

definition device_path_size :: nat where
  "device_path_size =
     length ''/devices/pci@NNNN,MMMM/pciXXXX,YYYY@IIII/device@IIII:AAAA.BBBB.devstat'' + 1"

text \<open>
  The body of the inner loop, for one entry of a group directory. \<^verbatim>\<open>snprintf\<close>
  returns the length of the whole composed string; the entry is skipped if that does
  not fit the buffer. \<^verbatim>\<open>realpath\<close> is given the buffer \<^verbatim>\<open>device_path\<close> and no
  size: it stores the resolved path with its NUL whatever its length, and the code does
  not check it, so a path that does not fit is written past the end of the buffer.
\<close>

definition instance_step :: "sys_env \<Rightarrow> string \<Rightarrow> string \<Rightarrow> 'd state \<Rightarrow> 'd state" where
  "instance_step env vidpid_path inst s =
     (if dotfile inst then s
      else
        let s1 = emit s [Log LOG_DEBUG (Found_instance inst),
                         Log LOG_INFO (Found_ugen vidpid_path inst)];
            devstat_path = vidpid_path @ ''/'' @ inst @ ''/devstat''
        in if length devstat_path \<ge> devstat_path_size
           then emit s1 [Log LOG_ERROR Devstat_snprintf_failed]
           else
             case realpath env devstat_path of
               None \<Rightarrow> emit s1 [Log LOG_ERROR (Realpath_failed devstat_path)]
             | Some device_path \<Rightarrow>
                 if length device_path \<ge> device_path_size
                 then emit s1 [Overrun ''device_path'']
                 else
                   let s2 = emit s1 [Log LOG_DEBUG (Device_path device_path)]
                   in if take devices_len device_path \<noteq> devices
                      then emit s2 [Log LOG_WARNING (Not_under_devices device_path)]
                      else
                        let device_node_path = drop devices_len device_path
                        in (case strrchr device_node_path CHR '':'' of
                              Some colon \<Rightarrow>
                                solaris_add_device env s2 (take colon device_node_path)
                            | None \<Rightarrow>
                                solaris_add_device env
                                  (emit s2 [Log LOG_WARNING No_colon]) device_node_path))"

text \<open>The inner loop over the entries \<^verbatim>\<open>readdir\<close> returns; it ends where the pass halts.\<close>

fun browse_instances :: "sys_env \<Rightarrow> string \<Rightarrow> string list \<Rightarrow> 'd state \<Rightarrow> 'd state" where
  "browse_instances env vidpid_path [] s = s"
| "browse_instances env vidpid_path (inst # rest) s =
     (let s' = instance_step env vidpid_path inst s
      in if halted s' then s' else browse_instances env vidpid_path rest s')"

text \<open>The body of the outer loop, for one entry of \<^verbatim>\<open>/dev/usb\<close>. The group directory is never closed.\<close>

definition vidpid_step :: "sys_env \<Rightarrow> string \<Rightarrow> 'd state \<Rightarrow> 'd state" where
  "vidpid_step env name s =
     (if 0 \<noteq> regexec name then
        (if \<not> dotfile name then emit s [Log LOG_DEBUG (Skipping name)] else s)
      else
        let s1 = emit s [Log LOG_DEBUG (Found_entry name)];
            vidpid_path = dev_usb @ ''/'' @ name
        in if length vidpid_path \<ge> vidpid_path_size
           then emit s1 [Log LOG_ERROR Vidpid_snprintf_failed]
           else
             case opendir env vidpid_path of
               None \<Rightarrow> emit s1 [Log LOG_ERROR (Opendir_failed_skipping vidpid_path)]
             | Some insts \<Rightarrow>
                 let s2 = browse_instances env vidpid_path insts
                            (emit s1 [Acquire (Dir vidpid_path),
                                      Log LOG_DEBUG (Start_browsing vidpid_path)])
                 in if halted s2 then s2
                    else emit s2 [Log LOG_DEBUG (Stop_browsing vidpid_path)])"

fun browse_vidpids :: "sys_env \<Rightarrow> string list \<Rightarrow> 'd state \<Rightarrow> 'd state" where
  "browse_vidpids env [] s = s"
| "browse_vidpids env (name # rest) s =
     (let s' = vidpid_step env name s
      in if halted s' then s' else browse_vidpids env rest s')"

text \<open>
  \<^verbatim>\<open>solaris_get_device_list\<close>: the code it returns, \<open>None\<close> if the pass halts before
  it returns, and the state it leaves.
\<close>

definition solaris_get_device_list ::
  "sys_env \<Rightarrow> 'd state \<Rightarrow> libusb_error option \<times> 'd state" where
  "solaris_get_device_list env s =
     (if \<not> regcomp_ok env
      then (Some LIBUSB_ERROR_NO_MEM, emit s [Log LOG_ERROR Regcomp_failed])
      else
        case opendir env dev_usb of
          None \<Rightarrow>
            (Some LIBUSB_ERROR_ACCESS,
             emit s [Acquire Regex, Log LOG_ERROR (Opendir_failed dev_usb), Release Regex])
        | Some entries \<Rightarrow>
            let s' = browse_vidpids env entries
                       (emit s [Acquire Regex, Acquire (Dir dev_usb),
                                Log LOG_DEBUG (Start_browsing dev_usb)])
            in if halted s' then (None, s')
               else (Some LIBUSB_ERROR_NO_DEVICE,
                     emit s' [Log LOG_DEBUG (Stop_browsing dev_usb), Release (Dir dev_usb)]))"

subsection \<open>The other backend functions\<close>

text \<open>
  The remaining entries of \<^verbatim>\<open>solaris_backend\<close>. None reads its arguments, except
  \<^verbatim>\<open>solaris_clock_gettime\<close>; a function returning \<^verbatim>\<open>void\<close> with an empty body
  leaves the state as it is. The system's \<^verbatim>\<open>clock_gettime\<close> is a parameter: for a
  clock, its return value and the time it stores.
\<close>

datatype clockid = CLOCK_REALTIME | CLOCK_MONOTONIC

text \<open>
  A backend function returns \<^verbatim>\<open>int\<close>: one of the libusb error codes, or whatever the
  system call returned.
\<close>

datatype 't retval = Error libusb_error | Sys int 't

definition solaris_open :: "'h \<Rightarrow> libusb_error" where
  "solaris_open handle = LIBUSB_ERROR_NO_DEVICE"

definition solaris_close :: "'h \<Rightarrow> 's \<Rightarrow> 's" where
  "solaris_close handle s = s"

definition solaris_get_device_descriptor :: "'dev \<Rightarrow> 'buf \<Rightarrow> libusb_error" where
  "solaris_get_device_descriptor dev buf = LIBUSB_ERROR_NO_DEVICE"

definition solaris_get_active_config_descriptor :: "'dev \<Rightarrow> 'buf \<Rightarrow> nat \<Rightarrow> libusb_error" where
  "solaris_get_active_config_descriptor dev buf len = LIBUSB_ERROR_NO_DEVICE"

definition solaris_get_config_descriptor ::
  "'dev \<Rightarrow> 8 word \<Rightarrow> 'buf \<Rightarrow> nat \<Rightarrow> libusb_error" where
  "solaris_get_config_descriptor dev idx buf len = LIBUSB_ERROR_NO_DEVICE"

definition solaris_get_configuration :: "'h \<Rightarrow> libusb_error" where
  "solaris_get_configuration handle = LIBUSB_ERROR_NO_DEVICE"

definition solaris_set_configuration :: "'h \<Rightarrow> c_int \<Rightarrow> libusb_error" where
  "solaris_set_configuration handle config = LIBUSB_ERROR_NO_DEVICE"

definition solaris_claim_interface :: "'h \<Rightarrow> c_int \<Rightarrow> libusb_error" where
  "solaris_claim_interface handle iface = LIBUSB_ERROR_NO_DEVICE"

definition solaris_release_interface :: "'h \<Rightarrow> c_int \<Rightarrow> libusb_error" where
  "solaris_release_interface handle iface = LIBUSB_ERROR_NO_DEVICE"

definition solaris_set_interface_altsetting :: "'h \<Rightarrow> c_int \<Rightarrow> c_int \<Rightarrow> libusb_error" where
  "solaris_set_interface_altsetting handle iface altsetting = LIBUSB_ERROR_NO_DEVICE"

definition solaris_clear_halt :: "'h \<Rightarrow> 8 word \<Rightarrow> libusb_error" where
  "solaris_clear_halt handle endpoint = LIBUSB_ERROR_NO_DEVICE"

definition solaris_reset_device :: "'h \<Rightarrow> libusb_error" where
  "solaris_reset_device handle = LIBUSB_ERROR_NO_DEVICE"

definition solaris_destroy_device :: "'dev \<Rightarrow> 's \<Rightarrow> 's" where
  "solaris_destroy_device dev s = s"

definition solaris_submit_transfer :: "'tr \<Rightarrow> libusb_error" where
  "solaris_submit_transfer itransfer = LIBUSB_ERROR_NO_DEVICE"

definition solaris_cancel_transfer :: "'tr \<Rightarrow> libusb_error" where
  "solaris_cancel_transfer itransfer = LIBUSB_ERROR_NOT_SUPPORTED"

definition solaris_clear_transfer_priv :: "'tr \<Rightarrow> 's \<Rightarrow> 's" where
  "solaris_clear_transfer_priv itransfer s = s"

definition solaris_handle_events :: "'fds \<Rightarrow> nat \<Rightarrow> c_int \<Rightarrow> libusb_error" where
  "solaris_handle_events fds nfds num_ready = LIBUSB_ERROR_NO_DEVICE"

text \<open>
  The argument \<^verbatim>\<open>clkid\<close> is an \<^verbatim>\<open>int\<close>: one of the two enumerators
  \<^verbatim>\<open>USBI_CLOCK_MONOTONIC\<close> and \<^verbatim>\<open>USBI_CLOCK_REALTIME\<close> of \<^verbatim>\<open>libusbi.h\<close>, or any
  other value.
\<close>

datatype usbi_clkid = USBI_CLOCK_MONOTONIC | USBI_CLOCK_REALTIME | Other_clkid c_int

definition solaris_clock_gettime :: "(clockid \<Rightarrow> int \<times> 't) \<Rightarrow> usbi_clkid \<Rightarrow> 't retval" where
  "solaris_clock_gettime clock_gettime clkid =
     (if clkid = USBI_CLOCK_REALTIME then
        (case clock_gettime CLOCK_REALTIME of (r, tp) \<Rightarrow> Sys r tp)
      else if clkid = USBI_CLOCK_MONOTONIC then
        (case clock_gettime CLOCK_MONOTONIC of (r, tp) \<Rightarrow> Sys r tp)
      else Error LIBUSB_ERROR_INVALID_PARAM)"

subsection \<open>Reading a trace\<close>

text \<open>
  The paths handed to the resolver are the arguments of its first message; the
  identities it derives are the arguments of its last debug message; the property names
  looked up are the arguments of the first message of \<^verbatim>\<open>di_prop_get_int\<close>.
\<close>

definition passed_to_resolver :: "event \<Rightarrow> string option" where
  "passed_to_resolver e =
     (case e of
        Log l m \<Rightarrow> (case m of Device_node p \<Rightarrow> Some p | _ \<Rightarrow> None)
      | _ \<Rightarrow> None)"

definition resolver_calls :: "event list \<Rightarrow> string list" where
  "resolver_calls tr = List.map_filter passed_to_resolver tr"

definition session_of :: "event \<Rightarrow> (c_int \<times> c_int \<times> c_ulong) option" where
  "session_of e =
     (case e of
        Log l m \<Rightarrow> (case m of Session b d sid \<Rightarrow> Some (b, d, sid) | _ \<Rightarrow> None)
      | _ \<Rightarrow> None)"

definition sessions :: "event list \<Rightarrow> (c_int \<times> c_int \<times> c_ulong) list" where
  "sessions tr = List.map_filter session_of tr"

text \<open>The same messages as they stand in the trace, with their level.\<close>

definition session_reports :: "event list \<Rightarrow> event list" where
  "session_reports tr = filter (\<lambda>e. session_of e \<noteq> None) tr"

definition looked_up :: "event \<Rightarrow> string option" where
  "looked_up e =
     (case e of
        Log l m \<Rightarrow> (case m of Looking_for p \<Rightarrow> Some p | _ \<Rightarrow> None)
      | _ \<Rightarrow> None)"

definition lookups :: "event list \<Rightarrow> string list" where
  "lookups tr = List.map_filter looked_up tr"

text \<open>The two messages of one call of \<^verbatim>\<open>di_prop_get_int\<close>.\<close>

definition prop_msg :: "di_node \<Rightarrow> string \<Rightarrow> msg" where
  "prop_msg dn propname =
     (let (retval, intp) = dn propname
      in if retval = 1 then Found_prop propname intp
         else if retval = 0 then Prop_empty propname
         else if retval < 0 then Prop_failed propname
         else Prop_values retval propname)"

definition lookup_events :: "di_node \<Rightarrow> string \<Rightarrow> event list" where
  "lookup_events dn propname =
     [Log LOG_DEBUG (Looking_for propname), Log LOG_DEBUG (prop_msg dn propname)]"

text \<open>The number a string of decimal digits stands for.\<close>

definition decimal :: "string \<Rightarrow> int" where
  "decimal ds = foldl (\<lambda>a c. 10 * a + digit_val c) 0 ds"

definition error_level :: "event \<Rightarrow> bool" where
  "error_level e = (case e of Log l m \<Rightarrow> l = LOG_ERROR | _ \<Rightarrow> False)"

text \<open>
  The instances, groups and systems on which a pass halts: an instance whose witness
  path is composed and resolved, to a path that does not fit \<^verbatim>\<open>device_path\<close>; a
  group that is browsed and has such an instance; a system where the walk starts and
  meets such a group.
\<close>

definition overruns :: "sys_env \<Rightarrow> string \<Rightarrow> string \<Rightarrow> bool" where
  "overruns env vidpid_path inst =
     (\<not> dotfile inst
      \<and> length (vidpid_path @ ''/'' @ inst @ ''/devstat'') < devstat_path_size
      \<and> (case realpath env (vidpid_path @ ''/'' @ inst @ ''/devstat'') of
           None \<Rightarrow> False
         | Some device_path \<Rightarrow> length device_path \<ge> device_path_size))"

definition group_overruns :: "sys_env \<Rightarrow> string \<Rightarrow> bool" where
  "group_overruns env name =
     (regexec name = 0
      \<and> length (dev_usb @ ''/'' @ name) < vidpid_path_size
      \<and> (case opendir env (dev_usb @ ''/'' @ name) of
           None \<Rightarrow> False
         | Some insts \<Rightarrow> list_ex (overruns env (dev_usb @ ''/'' @ name)) insts))"

definition pass_overruns :: "sys_env \<Rightarrow> bool" where
  "pass_overruns env =
     (regcomp_ok env
      \<and> (case opendir env dev_usb of
           None \<Rightarrow> False
         | Some names \<Rightarrow> list_ex (group_overruns env) names))"

text \<open>The events one call adds, whatever the state it starts from.\<close>

definition start :: "unit state" where
  "start = \<lparr>discdevs = [], trace = []\<rparr>"

definition add_device_events :: "sys_env \<Rightarrow> string \<Rightarrow> event list" where
  "add_device_events env p = trace (solaris_add_device env start p)"

definition instance_events :: "sys_env \<Rightarrow> string \<Rightarrow> string \<Rightarrow> event list" where
  "instance_events env vidpid_path inst = trace (instance_step env vidpid_path inst start)"

definition vidpid_events :: "sys_env \<Rightarrow> string \<Rightarrow> event list" where
  "vidpid_events env name = trace (vidpid_step env name start)"

text \<open>
  The priority order of the speed properties as the specification words it: an ordered
  table, the first property that is present wins, Full otherwise.
\<close>

definition speed_table :: "(string \<times> libusb_speed) list" where
  "speed_table =
     [(''low-speed'', LIBUSB_SPEED_LOW), (''full-speed'', LIBUSB_SPEED_FULL),
      (''high-speed'', LIBUSB_SPEED_HIGH), (''super-speed'', LIBUSB_SPEED_SUPER)]"

definition spec_speed :: "di_node \<Rightarrow> libusb_speed" where
  "spec_speed dn =
     (case find (\<lambda>(p, v). 0 \<le> fst (dn p)) speed_table of
        Some (p, v) \<Rightarrow> v
      | None \<Rightarrow> LIBUSB_SPEED_FULL)"

definition spec_probes :: "di_node \<Rightarrow> string list" where
  "spec_probes dn =
     (let names = map fst speed_table
      in take (Suc (length (takeWhile (\<lambda>p. \<not> 0 \<le> fst (dn p)) names))) names)"

subsection \<open>A device tree to run the code on\<close>

text \<open>
  A hub at \<^verbatim>\<open>device@52\<close> on bus \<open>0x12\<close> that carries both \<^verbatim>\<open>low-speed\<close> and
  \<^verbatim>\<open>high-speed\<close>, and variants of it: without a speed property, without
  \<^verbatim>\<open>assigned-address\<close>, without \<^verbatim>\<open>usb-num-configs\<close>, with zero configurations,
  and with a bus number and an address beyond eight bits.
\<close>

definition node_of :: "(string \<times> int \<times> c_int) list \<Rightarrow> di_node" where
  "node_of props p = (case map_of props p of Some r \<Rightarrow> r | None \<Rightarrow> (- 1, 0))"

definition hub_node :: di_node where
  "hub_node = node_of [(''assigned-address'', 1, 0x12), (''usb-num-configs'', 1, 1),
                       (''low-speed'', 0, 0), (''high-speed'', 0, 0)]"

definition plain_node :: di_node where
  "plain_node = node_of [(''assigned-address'', 1, 0x12), (''usb-num-configs'', 1, 3)]"

definition noaddr_node :: di_node where
  "noaddr_node = node_of [(''usb-num-configs'', 1, 1), (''full-speed'', 0, 0)]"

definition noconf_node :: di_node where
  "noconf_node = node_of [(''assigned-address'', 1, 0x12)]"

definition zeroconf_node :: di_node where
  "zeroconf_node = node_of [(''assigned-address'', 1, 0x12), (''usb-num-configs'', 1, 0)]"

definition wide_node :: di_node where
  "wide_node = node_of [(''assigned-address'', 1, 0x1FF), (''usb-num-configs'', 1, 1)]"

definition tree :: "string \<Rightarrow> di_node option" where
  "tree = map_of
     [(''/pci@0,0/pci106b,3f@6/device@52'', hub_node),
      (''/pci@0,0/device@7'', plain_node),
      (''/pci@0,0/device@3'', noaddr_node),
      (''/pci@0,0/device@4'', noconf_node),
      (''/pci@0,0/device@5'', zeroconf_node),
      (''/pci@0,0/device@300'', wide_node),
      (''/pci/device'', plain_node),
      (''/pci/hub'', noaddr_node),
      (''/a@1:b'', plain_node)]"

text \<open>A system clock that reads 42 on every clock and reports success.\<close>

definition fixed_clock :: "clockid \<Rightarrow> int \<times> nat" where
  "fixed_clock c = (0, 42)"

definition usb_env :: sys_env where
  "usb_env =
     \<lparr>regcomp_ok = True,
      opendir = map_of
        [(''/dev/usb'', [''.'', ''..'', ''a12.1'', ''hub0'', ''x1.2y'']),
         (''/dev/usb/a12.1'', [''.'', ''0'', ''1'', ''2'']),
         (''/dev/usb/x1.2y'', [''0''])],
      realpath = map_of
        [(''/dev/usb/a12.1/0/devstat'', ''/devices/pci@0,0/device@3:a12.1.devstat''),
         (''/dev/usb/a12.1/1/devstat'', ''/devices/pci@0,0/pci106b,3f@6/device@52:a12.1.devstat''),
         (''/dev/usb/a12.1/2/devstat'', ''/devices/pci@0,0/device@7''),
         (''/dev/usb/x1.2y/0/devstat'', ''/devices/a@1:b:c'')],
      di_init = tree\<rparr>"

text \<open>
  A system with one group of two instances. The first is a device behind three hubs,
  whose resolved path has 74 characters; the second is the hub at \<^verbatim>\<open>device@52\<close>.
\<close>

definition long_env :: sys_env where
  "long_env =
     \<lparr>regcomp_ok = True,
      opendir = map_of
        [(''/dev/usb'', [''.'', ''..'', ''a12.1'']),
         (''/dev/usb/a12.1'', [''.'', ''..'', ''0'', ''1''])],
      realpath = map_of
        [(''/dev/usb/a12.1/0/devstat'',
          ''/devices/pci@0,0/pci1028,20d@1d,7/hub@4/hub@2/hub@1/device@3:a12.1.devstat''),
         (''/dev/usb/a12.1/1/devstat'',
          ''/devices/pci@0,0/pci106b,3f@6/device@52:a12.1.devstat'')],
      di_init = tree\<rparr>"

section \<open>Properties\<close>


subsection \<open>The C library\<close>

lemma strrchr_None_iff: "strrchr s c = None \<longleftrightarrow> c \<notin> set s"
  by (induction s) (auto split: option.splits)

lemma strrchr_Some_split:
  "strrchr s c = Some i \<Longrightarrow> s = take i s @ c # drop (Suc i) s \<and> c \<notin> set (drop (Suc i) s)"
proof (induction s arbitrary: i)
  case Nil
  then show ?case by simp
next
  case (Cons x xs)
  show ?case
  proof (cases "strrchr xs c")
    case None
    with Cons.prems have "x = c" "i = 0" by (auto split: if_splits)
    with None show ?thesis by (simp add: strrchr_None_iff)
  next
    case (Some j)
    with Cons.prems have i: "i = Suc j" by simp
    from Cons.IH [OF Some] show ?thesis by (simp add: i)
  qed
qed

lemma strrchr_last:
  "c \<notin> set b \<Longrightarrow> strrchr (a @ c # b) c = Some (length a)"
  by (induction a) (auto simp: strrchr_None_iff [THEN iffD2] split: option.splits)

lemma di_prop_get_int_retval: "fst (snd (di_prop_get_int dn p out)) = fst (dn p)"
  by (simp add: di_prop_get_int_def split: prod.splits)

lemma di_prop_get_int_out:
  "snd (snd (di_prop_get_int dn p (Some v))) = Some (if fst (dn p) = 1 then snd (dn p) else v)"
  by (simp add: di_prop_get_int_def split: prod.splits)

lemma strrchr_Some_mem: "strrchr s c = Some i \<Longrightarrow> c \<in> set s"
  using strrchr_None_iff [of s c] by auto

lemma add_device_node_Some_iff:
  "snd (add_device_node dn p) \<noteq> None \<longleftrightarrow>
     fst (dn ''assigned-address'') = 1 \<and> fst (dn ''usb-num-configs'') = 1 \<and> CHR ''@'' \<in> set p"
  by (auto simp: add_device_node_def Let_def case_prod_beta di_prop_get_int_retval
        strrchr_None_iff [symmetric] split: option.splits dest: strrchr_Some_mem)

lemma add_device_node_Some:
  assumes "fst (dn ''assigned-address'') = 1" "fst (dn ''usb-num-configs'') = 1"
    and "strrchr p CHR ''@'' = Some at"
  shows "snd (add_device_node dn p) =
     Some \<lparr>busnum = snd (dn ''assigned-address''),
           devaddr = atoi (drop (Suc at) p),
           numconf = snd (dn ''usb-num-configs''),
           session_id = scast (push_bit 8 (snd (dn ''assigned-address'')) OR atoi (drop (Suc at) p)),
           speed = snd (probe_speed dn)\<rparr>"
  using assms
  by (simp add: add_device_node_def Let_def case_prod_beta di_prop_get_int_retval
        di_prop_get_int_out)

lemma probe_speed_snd:
  "snd (probe_speed dn) =
     (if 0 \<le> fst (dn ''low-speed'') then LIBUSB_SPEED_LOW
      else if 0 \<le> fst (dn ''full-speed'') then LIBUSB_SPEED_FULL
      else if 0 \<le> fst (dn ''high-speed'') then LIBUSB_SPEED_HIGH
      else if 0 \<le> fst (dn ''super-speed'') then LIBUSB_SPEED_SUPER
      else LIBUSB_SPEED_FULL)"
  by (simp add: probe_speed_def Let_def case_prod_beta di_prop_get_int_retval)


lemma pack_nonneg:
  fixes b d :: "32 word"
  assumes b0: "0 \<le> sint b" and b1: "sint b < 2 ^ 23" and d0: "0 \<le> sint d"
  shows "uint (scast (push_bit 8 b OR d) :: 64 word) = push_bit 8 (sint b) OR sint d"
proof -
  define K where "K = push_bit 8 (sint b) OR sint d"
  have d1: "sint d < 2 ^ 31"
    using sint_lt [of d] by simp
  have pb: "push_bit 8 (sint b) < 2 ^ 31"
    using b1 by (simp add: push_bit_eq_mult)
  have K0: "0 \<le> K"
    using b0 d0 by (simp add: K_def)
  have K1: "K < 2 ^ 31"
    unfolding K_def using b0 pb d1 by (intro OR_upper) simp_all
  have w: "push_bit 8 b OR d = (word_of_int K :: 32 word)"
    by (simp add: K_def of_int_or_eq of_int_push_bit)
  have "sint (word_of_int K :: 32 word) = K"
    using K0 K1 by (simp add: sint_sbintrunc' signed_take_bit_int_eq_self)
  then have "(scast (push_bit 8 b OR d) :: 64 word) = word_of_int K"
    by (simp add: w scast_eq)
  moreover have "uint (word_of_int K :: 64 word) = K"
    using K0 K1 by (simp add: uint_word_of_int_eq take_bit_int_eq_self)
  ultimately show ?thesis by (simp add: K_def)
qed


lemma discdevs_emit: "discdevs (emit s e) = discdevs s"
  by (simp add: emit_def)

lemma trace_emit: "trace (emit s e) = trace s @ e"
  by (simp add: emit_def)

lemma emit_emit: "emit (emit s a) b = emit s (a @ b)"
  by (simp add: emit_def)

lemma emit_Nil: "emit s [] = s"
  by (simp add: emit_def)

lemma trace_start: "trace start = []"
  by (simp add: start_def)

lemma solaris_add_device_emit:
  "solaris_add_device env s p = emit s (add_device_events env p)"
  by (simp add: add_device_events_def solaris_add_device_def start_def emit_def Let_def
        split: option.splits)

lemma is_overrun_simps:
  "is_overrun (Overrun b)" "\<not> is_overrun (Log l m)" "\<not> is_overrun (Acquire r)"
  "\<not> is_overrun (Release r)"
  by (simp_all add: is_overrun_def)

lemma halted_emit:
  "halted (emit s evs) = (if evs = [] then halted s else is_overrun (last evs))"
  by (simp add: halted_def halting_def emit_def)

lemma halted_emit_unhalted: "\<not> halted s \<Longrightarrow> halted (emit s evs) = halting evs"
  by (cases "evs = []") (simp_all add: halted_def halting_def emit_def)

lemma not_halted_start: "\<not> halted start"
  by (simp add: halted_def halting_def start_def)

lemma instance_step_emit:
  "instance_step env v inst s = emit s (instance_events env v inst)"
  unfolding instance_events_def instance_step_def Let_def
  by (simp add: solaris_add_device_emit emit_emit trace_emit start_def emit_Nil split: option.splits)

lemma browse_instances_same:
  "\<not> halted s \<Longrightarrow> \<not> halted t \<Longrightarrow>
   \<exists>evs. browse_instances env v insts s = emit s evs \<and> browse_instances env v insts t = emit t evs"
proof (induction insts arbitrary: s t)
  case Nil
  have "browse_instances env v [] s = emit s [] \<and> browse_instances env v [] t = emit t []"
    by (simp add: emit_Nil)
  then show ?case by blast
next
  case (Cons inst rest)
  let ?ev = "instance_events env v inst"
  have same: "halted (emit s ?ev) = halted (emit t ?ev)"
    using Cons.prems by (simp add: halted_emit)
  show ?case
  proof (cases "halted (emit t ?ev)")
    case True
    with same have "browse_instances env v (inst # rest) s = emit s ?ev
        \<and> browse_instances env v (inst # rest) t = emit t ?ev"
      by (simp add: instance_step_emit)
    then show ?thesis by blast
  next
    case False
    with same have ns: "\<not> halted (emit s ?ev)" by simp
    from Cons.IH [OF ns False] obtain evs
      where "browse_instances env v rest (emit s ?ev) = emit (emit s ?ev) evs"
        and "browse_instances env v rest (emit t ?ev) = emit (emit t ?ev) evs"
      by blast
    with ns False have "browse_instances env v (inst # rest) s = emit s (?ev @ evs)
        \<and> browse_instances env v (inst # rest) t = emit t (?ev @ evs)"
      by (simp add: instance_step_emit emit_emit)
    then show ?thesis by blast
  qed
qed

lemma browse_instances_emit:
  "\<not> halted s \<Longrightarrow>
   browse_instances env v insts s = emit s (trace (browse_instances env v insts start))"
proof -
  assume "\<not> halted s"
  from browse_instances_same [OF this not_halted_start] obtain evs
    where s: "browse_instances env v insts s = emit s evs"
      and t: "browse_instances env v insts start = emit start evs"
    by blast
  from t have "trace (browse_instances env v insts start) = evs"
    by (simp add: trace_emit trace_start)
  with s show ?thesis by simp
qed

lemma browse_instances_unhalted:
  "\<not> halted (browse_instances env v insts s) \<Longrightarrow>
   browse_instances env v insts s = emit s (concat (map (instance_events env v) insts))"
proof (induction insts arbitrary: s)
  case Nil
  show ?case by (simp add: emit_Nil)
next
  case (Cons inst rest)
  from Cons.prems have ns: "\<not> halted (instance_step env v inst s)"
    by (auto simp: Let_def split: if_splits)
  with Cons.prems have "\<not> halted (browse_instances env v rest (instance_step env v inst s))"
    by (simp add: Let_def)
  from Cons.IH [OF this] ns show ?case
    by (simp add: Let_def instance_step_emit emit_emit)
qed

lemma vidpid_step_emit:
  "vidpid_step env name s = emit s (vidpid_events env name)"
proof -
  have nh: "\<not> halted (emit s' [Log LOG_DEBUG (Found_entry name), Acquire (Dir p),
                                 Log LOG_DEBUG (Start_browsing p)])" for s' :: "'b state" and p
    by (simp add: halted_emit is_overrun_simps)
  note b = browse_instances_emit [OF nh]
  show ?thesis
    unfolding vidpid_events_def vidpid_step_def Let_def
    by (simp add: emit_emit b halted_emit trace_emit trace_start emit_Nil split: option.splits)
qed

lemma browse_vidpids_same:
  "\<not> halted s \<Longrightarrow> \<not> halted t \<Longrightarrow>
   \<exists>evs. browse_vidpids env names s = emit s evs \<and> browse_vidpids env names t = emit t evs"
proof (induction names arbitrary: s t)
  case Nil
  have "browse_vidpids env [] s = emit s [] \<and> browse_vidpids env [] t = emit t []"
    by (simp add: emit_Nil)
  then show ?case by blast
next
  case (Cons name rest)
  let ?ev = "vidpid_events env name"
  have same: "halted (emit s ?ev) = halted (emit t ?ev)"
    using Cons.prems by (simp add: halted_emit)
  show ?case
  proof (cases "halted (emit t ?ev)")
    case True
    with same have "browse_vidpids env (name # rest) s = emit s ?ev
        \<and> browse_vidpids env (name # rest) t = emit t ?ev"
      by (simp add: vidpid_step_emit)
    then show ?thesis by blast
  next
    case False
    with same have ns: "\<not> halted (emit s ?ev)" by simp
    from Cons.IH [OF ns False] obtain evs
      where "browse_vidpids env rest (emit s ?ev) = emit (emit s ?ev) evs"
        and "browse_vidpids env rest (emit t ?ev) = emit (emit t ?ev) evs"
      by blast
    with ns False have "browse_vidpids env (name # rest) s = emit s (?ev @ evs)
        \<and> browse_vidpids env (name # rest) t = emit t (?ev @ evs)"
      by (simp add: vidpid_step_emit emit_emit)
    then show ?thesis by blast
  qed
qed

lemma browse_vidpids_emit:
  "\<not> halted s \<Longrightarrow>
   browse_vidpids env names s = emit s (trace (browse_vidpids env names start))"
proof -
  assume "\<not> halted s"
  from browse_vidpids_same [OF this not_halted_start] obtain evs
    where s: "browse_vidpids env names s = emit s evs"
      and t: "browse_vidpids env names start = emit start evs"
    by blast
  from t have "trace (browse_vidpids env names start) = evs"
    by (simp add: trace_emit trace_start)
  with s show ?thesis by simp
qed

lemma browse_vidpids_unhalted:
  "\<not> halted (browse_vidpids env names s) \<Longrightarrow>
   browse_vidpids env names s = emit s (concat (map (vidpid_events env) names))"
proof (induction names arbitrary: s)
  case Nil
  show ?case by (simp add: emit_Nil)
next
  case (Cons name rest)
  from Cons.prems have ns: "\<not> halted (vidpid_step env name s)"
    by (auto simp: Let_def split: if_splits)
  with Cons.prems have "\<not> halted (browse_vidpids env rest (vidpid_step env name s))"
    by (simp add: Let_def)
  from Cons.IH [OF this] ns show ?case
    by (simp add: Let_def vidpid_step_emit emit_emit)
qed

lemma discdevs_browse_vidpids: "discdevs (browse_vidpids env names s) = discdevs s"
  by (induction names arbitrary: s) (simp_all add: Let_def vidpid_step_emit discdevs_emit)

lemma derived_identity_Some:
  assumes "derived_identity env p = Some idn"
  obtains dn at where "di_init env p = Some dn"
    and "fst (dn ''assigned-address'') = 1" and "fst (dn ''usb-num-configs'') = 1"
    and "strrchr p CHR ''@'' = Some at"
    and "idn = \<lparr>busnum = snd (dn ''assigned-address''),
           devaddr = atoi (drop (Suc at) p),
           numconf = snd (dn ''usb-num-configs''),
           session_id = scast (push_bit 8 (snd (dn ''assigned-address'')) OR atoi (drop (Suc at) p)),
           speed = snd (probe_speed dn)\<rparr>"
proof -
  from assms obtain dn where dn: "di_init env p = Some dn"
    and some: "snd (add_device_node dn p) = Some idn"
    by (auto simp: derived_identity_def split: option.splits)
  from some have "snd (add_device_node dn p) \<noteq> None" by simp
  from this [unfolded add_device_node_Some_iff]
  have aa: "fst (dn ''assigned-address'') = 1" and nc: "fst (dn ''usb-num-configs'') = 1"
    and "CHR ''@'' \<in> set p"
    by simp_all
  then obtain at where at: "strrchr p CHR ''@'' = Some at"
    using strrchr_None_iff [of p "CHR ''@''"] by (cases "strrchr p CHR ''@''") auto
  from add_device_node_Some [OF aa nc at] some that [OF dn aa nc at] show thesis
    by simp
qed

lemma digits_val_append:
  "list_all isdigit ds \<Longrightarrow>
   digits_val acc (ds @ r) = digits_val (foldl (\<lambda>a c. 10 * a + digit_val c) acc ds) r"
  by (induction ds arbitrary: acc) simp_all

lemma digits_val_stop: "(case r of [] \<Rightarrow> True | c # _ \<Rightarrow> \<not> isdigit c) \<Longrightarrow> digits_val acc r = acc"
  by (cases r) simp_all

lemma isdigit_not_other: "isdigit c \<Longrightarrow> \<not> isspace c \<and> c \<noteq> CHR ''-'' \<and> c \<noteq> CHR ''+''"
  by (auto simp: isdigit_def isspace_def)

lemma atoi_numeric_prefix:
  assumes "list_all isdigit ds" and "ds \<noteq> []"
    and "case r of [] \<Rightarrow> True | c # _ \<Rightarrow> \<not> isdigit c"
  shows "atoi (ds @ r) = word_of_int (decimal ds)"
proof -
  from assms(2) obtain c cs where ds: "ds = c # cs" by (cases ds) auto
  with assms(1) have c: "isdigit c" by simp
  have "digits_val 0 (ds @ r) = decimal ds"
    by (simp add: digits_val_append [OF assms(1)] digits_val_stop [OF assms(3)] decimal_def)
  then show ?thesis
    using isdigit_not_other [OF c] by (simp add: atoi_def ds)
qed

lemma atoi_no_number:
  "\<not> isdigit c \<Longrightarrow> \<not> isspace c \<Longrightarrow> c \<noteq> CHR ''-'' \<Longrightarrow> c \<noteq> CHR ''+'' \<Longrightarrow> atoi (c # cs) = 0"
  by (simp add: atoi_def)

subsection \<open>Traces\<close>

lemma map_filter_append: "List.map_filter f (xs @ ys) = List.map_filter f xs @ List.map_filter f ys"
  by (simp add: List.map_filter_def)

lemma sessions_append: "sessions (a @ b) = sessions a @ sessions b"
  by (simp add: sessions_def map_filter_append)

lemma lookups_append: "lookups (a @ b) = lookups a @ lookups b"
  by (simp add: lookups_def map_filter_append)

lemma resolver_calls_append: "resolver_calls (a @ b) = resolver_calls a @ resolver_calls b"
  by (simp add: resolver_calls_def map_filter_append)

lemma sessions_simps:
  "sessions [] = []"
  "sessions (Acquire r # t) = sessions t"
  "sessions (Release r # t) = sessions t"
  "sessions (Log l (Session b d sid) # t) = (b, d, sid) # sessions t"
  "(\<And>b d sid. m \<noteq> Session b d sid) \<Longrightarrow> sessions (Log l m # t) = sessions t"
  "sessions (Overrun buf # t) = sessions t"
  by (simp_all add: sessions_def session_of_def List.map_filter_simps split: msg.splits)

lemma session_reports_append:
  "session_reports (a @ b) = session_reports a @ session_reports b"
  by (simp add: session_reports_def)

lemma session_reports_simps:
  "session_reports [] = []"
  "session_reports (Acquire r # t) = session_reports t"
  "session_reports (Release r # t) = session_reports t"
  "session_reports (Log l (Session b d sid) # t) = Log l (Session b d sid) # session_reports t"
  "(\<And>b d sid. m \<noteq> Session b d sid) \<Longrightarrow> session_reports (Log l m # t) = session_reports t"
  "session_reports (Overrun buf # t) = session_reports t"
  by (simp_all add: session_reports_def session_of_def split: msg.splits)

lemma resolver_calls_simps:
  "resolver_calls [] = []"
  "resolver_calls (Acquire r # t) = resolver_calls t"
  "resolver_calls (Release r # t) = resolver_calls t"
  "resolver_calls (Log l (Device_node p) # t) = p # resolver_calls t"
  "(\<And>p. m \<noteq> Device_node p) \<Longrightarrow> resolver_calls (Log l m # t) = resolver_calls t"
  "resolver_calls (Overrun buf # t) = resolver_calls t"
  by (simp_all add: resolver_calls_def passed_to_resolver_def List.map_filter_simps
        split: msg.splits)

lemma lookups_simps:
  "lookups [] = []"
  "lookups (Acquire r # t) = lookups t"
  "lookups (Release r # t) = lookups t"
  "lookups (Log l (Looking_for q) # t) = q # lookups t"
  "(\<And>q. m \<noteq> Looking_for q) \<Longrightarrow> lookups (Log l m # t) = lookups t"
  by (simp_all add: lookups_def looked_up_def List.map_filter_simps split: msg.splits)

lemma di_prop_get_int_events: "fst (di_prop_get_int dn q out) = lookup_events dn q"
  by (simp add: di_prop_get_int_def lookup_events_def prop_msg_def split: prod.splits)

lemma sessions_lookup_events: "sessions (lookup_events dn q) = []"
  by (simp add: sessions_def lookup_events_def prop_msg_def session_of_def List.map_filter_simps
        split: prod.splits)

lemma session_reports_lookup_events: "session_reports (lookup_events dn q) = []"
  by (simp add: lookup_events_def prop_msg_def session_reports_simps split: prod.splits)

lemma lookups_lookup_events: "lookups (lookup_events dn q) = [q]"
  by (simp add: lookups_def lookup_events_def prop_msg_def looked_up_def List.map_filter_simps
        split: prod.splits)

lemma error_level_lookup_events: "filter error_level (lookup_events dn q) = []"
  by (simp add: lookup_events_def error_level_def)

subsection \<open>The resolver\<close>

lemma probe_speed_events:
  "fst (probe_speed dn) = concat (map (lookup_events dn) (spec_probes dn))"
  by (simp add: probe_speed_def spec_probes_def speed_table_def Let_def case_prod_beta
        di_prop_get_int_retval di_prop_get_int_events)

lemma spec_speed_probe: "spec_speed dn = snd (probe_speed dn)"
  by (simp add: spec_speed_def speed_table_def probe_speed_snd)

lemma sessions_probe_speed: "sessions (fst (probe_speed dn)) = []"
  by (simp add: probe_speed_def Let_def case_prod_beta di_prop_get_int_events
        sessions_append sessions_lookup_events)

lemma session_reports_probe_speed: "session_reports (fst (probe_speed dn)) = []"
  by (simp add: probe_speed_def Let_def case_prod_beta di_prop_get_int_events
        session_reports_append session_reports_lookup_events)

lemma lookups_probe_speed: "lookups (fst (probe_speed dn)) = spec_probes dn"
  by (simp add: probe_speed_def spec_probes_def speed_table_def Let_def case_prod_beta
        di_prop_get_int_retval di_prop_get_int_events lookups_append lookups_lookup_events)

lemma add_device_node_no_address:
  "fst (dn ''assigned-address'') \<noteq> 1 \<Longrightarrow>
   add_device_node dn p = (lookup_events dn ''assigned-address'', None)"
  by (simp add: add_device_node_def Let_def case_prod_beta di_prop_get_int_retval
        di_prop_get_int_events)

lemma add_device_node_no_configs:
  "fst (dn ''assigned-address'') = 1 \<Longrightarrow> fst (dn ''usb-num-configs'') \<noteq> 1 \<Longrightarrow>
   add_device_node dn p =
     (lookup_events dn ''assigned-address'' @ lookup_events dn ''usb-num-configs'', None)"
  by (simp add: add_device_node_def Let_def case_prod_beta di_prop_get_int_retval
        di_prop_get_int_events)

lemma add_device_node_no_at:
  "fst (dn ''assigned-address'') = 1 \<Longrightarrow> fst (dn ''usb-num-configs'') = 1 \<Longrightarrow>
   CHR ''@'' \<notin> set p \<Longrightarrow>
   add_device_node dn p =
     (lookup_events dn ''assigned-address'' @ lookup_events dn ''usb-num-configs''
        @ fst (probe_speed dn) @ [Log LOG_ERROR Parse_devaddr_failed], None)"
  by (simp add: add_device_node_def Let_def case_prod_beta di_prop_get_int_retval
        di_prop_get_int_events strrchr_None_iff [symmetric])

lemma add_device_node_events_Some:
  assumes "fst (dn ''assigned-address'') = 1" "fst (dn ''usb-num-configs'') = 1"
    and "strrchr p CHR ''@'' = Some at"
  shows "fst (add_device_node dn p) =
     lookup_events dn ''assigned-address'' @ lookup_events dn ''usb-num-configs''
       @ fst (probe_speed dn)
       @ [Log LOG_DEBUG (Session (snd (dn ''assigned-address'')) (atoi (drop (Suc at) p))
            (scast (push_bit 8 (snd (dn ''assigned-address'')) OR atoi (drop (Suc at) p))))]"
  using assms
  by (simp add: add_device_node_def Let_def case_prod_beta di_prop_get_int_retval
        di_prop_get_int_out di_prop_get_int_events)

lemma sessions_add_device_node:
  "sessions (fst (add_device_node dn p)) =
     (case snd (add_device_node dn p) of
        None \<Rightarrow> []
      | Some idn \<Rightarrow> [(busnum idn, devaddr idn, session_id idn)])"
proof (cases "fst (dn ''assigned-address'') = 1")
  case False
  then show ?thesis
    by (simp add: add_device_node_no_address sessions_lookup_events)
next
  case aa: True
  show ?thesis
  proof (cases "fst (dn ''usb-num-configs'') = 1")
    case False
    with aa show ?thesis
      by (simp add: add_device_node_no_configs sessions_append sessions_lookup_events)
  next
    case nc: True
    show ?thesis
    proof (cases "strrchr p CHR ''@''")
      case None
      then have "CHR ''@'' \<notin> set p" by (simp add: strrchr_None_iff)
      with aa nc show ?thesis
        by (simp add: add_device_node_no_at sessions_append sessions_lookup_events
              sessions_probe_speed sessions_simps)
    next
      case (Some at)
      show ?thesis
        by (simp add: add_device_node_events_Some [OF aa nc Some]
              add_device_node_Some [OF aa nc Some] sessions_append sessions_lookup_events
              sessions_probe_speed sessions_simps)
    qed
  qed
qed

lemma add_device_events_opened:
  "di_init env p = Some dn \<Longrightarrow>
   add_device_events env p =
     Log LOG_INFO (Device_node p) # Acquire (Node p) # fst (add_device_node dn p)
       @ [Release (Node p)]"
  by (simp add: add_device_events_def solaris_add_device_def start_def emit_def)

lemma error_level_probe_speed: "filter error_level (fst (probe_speed dn)) = []"
  by (simp add: probe_speed_def Let_def case_prod_beta di_prop_get_int_events
        error_level_lookup_events)

lemma add_device_events_unopened:
  "di_init env p = None \<Longrightarrow>
   add_device_events env p = [Log LOG_INFO (Device_node p), Log LOG_ERROR Di_init_failed]"
  by (simp add: add_device_events_def solaris_add_device_def start_def emit_def)

lemma sessions_add_device_events:
  "sessions (add_device_events env p) =
     (case derived_identity env p of
        None \<Rightarrow> []
      | Some idn \<Rightarrow> [(busnum idn, devaddr idn, session_id idn)])"
proof (cases "di_init env p")
  case None
  then show ?thesis
    by (simp add: add_device_events_unopened derived_identity_def sessions_simps)
next
  case (Some dn)
  have "sessions (add_device_events env p) = sessions (fst (add_device_node dn p))"
    by (simp add: add_device_events_opened [OF Some] sessions_append sessions_simps)
  then show ?thesis
    by (simp add: sessions_add_device_node derived_identity_def Some)
qed

lemma session_reports_add_device_events:
  "session_reports (add_device_events env p) =
     (case derived_identity env p of
        None \<Rightarrow> []
      | Some idn \<Rightarrow> [Log LOG_DEBUG (Session (busnum idn) (devaddr idn) (session_id idn))])"
proof (cases "di_init env p")
  case None
  then show ?thesis
    by (simp add: add_device_events_unopened derived_identity_def session_reports_simps)
next
  case (Some dn)
  note ev = add_device_events_opened [OF Some]
  show ?thesis
  proof (cases "fst (dn ''assigned-address'') = 1")
    case False
    then show ?thesis
      by (simp add: ev derived_identity_def Some add_device_node_no_address
            session_reports_append session_reports_simps session_reports_lookup_events)
  next
    case aa: True
    show ?thesis
    proof (cases "fst (dn ''usb-num-configs'') = 1")
      case False
      with aa show ?thesis
        by (simp add: ev derived_identity_def Some add_device_node_no_configs
              session_reports_append session_reports_simps session_reports_lookup_events)
    next
      case nc: True
      show ?thesis
      proof (cases "strrchr p CHR ''@''")
        case None
        then have "CHR ''@'' \<notin> set p" by (simp add: strrchr_None_iff)
        with aa nc show ?thesis
          by (simp add: ev derived_identity_def Some add_device_node_no_at
                session_reports_append session_reports_simps session_reports_lookup_events
                session_reports_probe_speed)
      next
        case at: (Some at)
        show ?thesis
          by (simp add: ev derived_identity_def Some add_device_node_events_Some [OF aa nc at]
                add_device_node_Some [OF aa nc at] session_reports_append
                session_reports_simps session_reports_lookup_events
                session_reports_probe_speed)
      qed
    qed
  qed
qed

lemma resolver_calls_lookup_events: "resolver_calls (lookup_events dn q) = []"
  by (simp add: lookup_events_def prop_msg_def resolver_calls_simps split: prod.splits)

lemma resolver_calls_probe_speed: "resolver_calls (fst (probe_speed dn)) = []"
  by (simp add: probe_speed_def Let_def case_prod_beta di_prop_get_int_events
        resolver_calls_append resolver_calls_lookup_events)

lemma resolver_calls_add_device_node: "resolver_calls (fst (add_device_node dn p)) = []"
  by (simp add: add_device_node_def Let_def case_prod_beta di_prop_get_int_events
        resolver_calls_append resolver_calls_lookup_events resolver_calls_probe_speed
        resolver_calls_simps split: option.splits)

lemma resolver_calls_add_device_events: "resolver_calls (add_device_events env p) = [p]"
  by (cases "di_init env p")
     (simp_all add: add_device_events_opened add_device_events_unopened resolver_calls_simps
        resolver_calls_append resolver_calls_add_device_node)

lemma get_device_list_discdevs: "discdevs (snd (solaris_get_device_list env s)) = discdevs s"
  by (simp add: solaris_get_device_list_def Let_def discdevs_browse_vidpids discdevs_emit
        split: option.splits)

lemma get_device_list_returns:
  "fst (solaris_get_device_list env s) = None \<longleftrightarrow>
     regcomp_ok env \<and> opendir env dev_usb \<noteq> None \<and> halted (snd (solaris_get_device_list env s))"
  by (auto simp: solaris_get_device_list_def Let_def halted_emit is_overrun_simps
        split: option.splits)

lemma browse_instances_continues:
  "\<not> halted (instance_step env v inst s) \<Longrightarrow>
   trace (browse_instances env v (inst # rest) s) =
     trace (instance_step env v inst s) @ trace (browse_instances env v rest start)"
  by (simp add: Let_def browse_instances_emit trace_emit)

lemma browse_vidpids_continues:
  "\<not> halted (vidpid_step env name s) \<Longrightarrow>
   trace (browse_vidpids env (name # rest) s) =
     trace (vidpid_step env name s) @ trace (browse_vidpids env rest start)"
  by (simp add: Let_def browse_vidpids_emit trace_emit)

lemma add_device_events_last:
  "add_device_events env p \<noteq> [] \<and> \<not> is_overrun (last (add_device_events env p))"
  by (cases "di_init env p")
     (simp_all add: add_device_events_opened add_device_events_unopened is_overrun_simps)

lemma not_halted_add_device: "\<not> halted (solaris_add_device env s p)"
  using add_device_events_last [of env p]
  by (simp add: solaris_add_device_emit halted_emit)

subsection \<open>The pattern\<close>

lemma not_hexdigit_dot: "\<not> hexdigit CHR ''.''"
  by (simp add: hexdigit_def)

lemma match_here_lang:
  assumes "match_here s"
  shows "\<exists>w post. s = w @ post \<and> vidpid_lang w"
proof -
  let ?a = "takeWhile hexdigit s"
  from assms have a: "?a \<noteq> []" by (simp add: match_here_def)
  from assms obtain h r where d: "dropWhile hexdigit s = CHR ''.'' # h # r" and h: "hexdigit h"
    by (auto simp: match_here_def split: list.splits)
  have "s = ?a @ dropWhile hexdigit s" by simp
  with d have s: "s = (?a @ ''.'' @ [h]) @ r" by simp
  have "list_all hexdigit ?a"
    by (simp add: list_all_iff) (meson set_takeWhileD)
  with a h have "vidpid_lang (?a @ ''.'' @ [h])"
    unfolding vidpid_lang_def by (intro exI [of _ ?a] exI [of _ "[h]"]) simp
  with s show ?thesis by blast
qed

lemma lang_match_here:
  assumes "vidpid_lang w"
  shows "match_here (w @ post)"
proof -
  from assms obtain a b where w: "w = a @ ''.'' @ b" and a: "a \<noteq> []" and b: "b \<noteq> []"
    and ha: "list_all hexdigit a" and hb: "list_all hexdigit b"
    by (auto simp: vidpid_lang_def)
  from b obtain h b' where b': "b = h # b'" by (cases b) auto
  with hb have h: "hexdigit h" by simp
  from ha have all: "\<And>x. x \<in> set a \<Longrightarrow> hexdigit x" by (simp add: list_all_iff)
  have t: "takeWhile hexdigit (w @ post) = a"
    by (simp add: w takeWhile_append2 [OF all] not_hexdigit_dot)
  have d: "dropWhile hexdigit (w @ post) = CHR ''.'' # h # b' @ post"
    by (simp add: w b' dropWhile_append2 [OF all] not_hexdigit_dot)
  from a h show ?thesis by (simp add: match_here_def t d)
qed

lemma regexec_contains: "regexec name = 0 \<longleftrightarrow> contains_vidpid name"
proof
  assume "regexec name = 0"
  then obtain i where "i < length name" and "match_here (drop i name)"
    by (auto simp: regexec_def REG_NOMATCH_def list_ex_iff split: if_splits)
  then obtain w post where "drop i name = w @ post" and w: "vidpid_lang w"
    using match_here_lang by blast
  then have "name = take i name @ w @ post"
    by (metis append_take_drop_id)
  with w show "contains_vidpid name" unfolding contains_vidpid_def by blast
next
  assume "contains_vidpid name"
  then obtain pre w post where name: "name = pre @ w @ post" and w: "vidpid_lang w"
    unfolding contains_vidpid_def by blast
  from w have "w \<noteq> []" by (auto simp: vidpid_lang_def)
  then have i: "length pre < length name" by (simp add: name)
  have "match_here (drop (length pre) name)"
    by (simp add: name lang_match_here [OF w])
  with i show "regexec name = 0"
    by (auto simp: regexec_def list_ex_iff)
qed

lemma spec_anchored_lang: "spec_anchored_match name \<longleftrightarrow> vidpid_lang name"
proof
  assume m: "spec_anchored_match name"
  let ?a = "takeWhile hexdigit name"
  from m have a: "?a \<noteq> []" by (simp add: spec_anchored_match_def)
  from m obtain b where d: "dropWhile hexdigit name = CHR ''.'' # b" and b: "b \<noteq> []"
    and hb: "list_all hexdigit b"
    by (auto simp: spec_anchored_match_def split: list.splits)
  have "name = ?a @ dropWhile hexdigit name" by simp
  with d have n: "name = ?a @ ''.'' @ b" by simp
  have "list_all hexdigit ?a"
    by (simp add: list_all_iff) (meson set_takeWhileD)
  with a b hb n show "vidpid_lang name"
    unfolding vidpid_lang_def by blast
next
  assume "vidpid_lang name"
  then obtain a b where w: "name = a @ ''.'' @ b" and a: "a \<noteq> []" and b: "b \<noteq> []"
    and ha: "list_all hexdigit a" and hb: "list_all hexdigit b"
    by (auto simp: vidpid_lang_def)
  from ha have all: "\<And>x. x \<in> set a \<Longrightarrow> hexdigit x" by (simp add: list_all_iff)
  have t: "takeWhile hexdigit name = a"
    by (simp add: w takeWhile_append2 [OF all] not_hexdigit_dot)
  have d: "dropWhile hexdigit name = CHR ''.'' # b"
    by (simp add: w dropWhile_append2 [OF all] not_hexdigit_dot)
  from a b hb show "spec_anchored_match name"
    by (simp add: spec_anchored_match_def t d)
qed

lemma anchored_contains: "spec_anchored_match name \<Longrightarrow> contains_vidpid name"
  unfolding spec_anchored_lang contains_vidpid_def
  by (intro exI [of _ "[]"] exI [of _ name]) simp

subsection \<open>The walker\<close>

lemma resolver_calls_concat:
  "resolver_calls (concat xss) = concat (map resolver_calls xss)"
  by (induction xss) (simp_all add: resolver_calls_simps resolver_calls_append)

lemma vidpid_events_nomatch:
  "\<not> contains_vidpid name \<Longrightarrow>
   vidpid_events env name = (if dotfile name then [] else [Log LOG_DEBUG (Skipping name)])"
  using regexec_contains [of name]
  by (simp add: vidpid_events_def vidpid_step_def emit_def start_def)

lemma halting_instance_events:
  "halting (instance_events env v inst) = overruns env v inst"
proof -
  have r: "trace (solaris_add_device env s' p) \<noteq> []"
    "\<not> is_overrun (last (trace (solaris_add_device env s' p)))" for s' :: "unit state" and p
    using add_device_events_last [of env p]
    by (simp_all add: solaris_add_device_emit trace_emit)
  show ?thesis
    unfolding instance_events_def instance_step_def overruns_def Let_def
    by (simp add: r trace_emit trace_start halting_def is_overrun_simps split: option.splits)
qed

lemma halted_browse_instances:
  "\<not> halted s \<Longrightarrow>
   halted (browse_instances env v insts s) = list_ex (overruns env v) insts"
proof (induction insts arbitrary: s)
  case Nil
  then show ?case by simp
next
  case (Cons inst rest)
  have h: "halted (instance_step env v inst s) = overruns env v inst"
    by (simp add: instance_step_emit halted_emit_unhalted [OF Cons.prems]
          halting_instance_events)
  show ?case
  proof (cases "overruns env v inst")
    case True
    with h show ?thesis by (simp add: Let_def)
  next
    case False
    with h have "\<not> halted (instance_step env v inst s)" by simp
    from Cons.IH [OF this] h False show ?thesis by (simp add: Let_def)
  qed
qed

lemma halting_vidpid_events:
  "halting (vidpid_events env name) = group_overruns env name"
proof -
  have nh: "\<not> halted (emit start [Log LOG_DEBUG (Found_entry name), Acquire (Dir p),
                                    Log LOG_DEBUG (Start_browsing p)])" for p
    by (simp add: halted_emit is_overrun_simps)
  show ?thesis
    unfolding vidpid_events_def vidpid_step_def group_overruns_def Let_def
    by (simp add: emit_emit halted_browse_instances [OF nh] halted_emit is_overrun_simps
          halted_def [symmetric] split: option.splits)
       (simp add: halted_def halting_def emit_def start_def is_overrun_simps)
qed

lemma halted_browse_vidpids:
  "\<not> halted s \<Longrightarrow>
   halted (browse_vidpids env names s) = list_ex (group_overruns env) names"
proof (induction names arbitrary: s)
  case Nil
  then show ?case by simp
next
  case (Cons name rest)
  have h: "halted (vidpid_step env name s) = group_overruns env name"
    by (simp add: vidpid_step_emit halted_emit_unhalted [OF Cons.prems] halting_vidpid_events)
  show ?case
  proof (cases "group_overruns env name")
    case True
    with h show ?thesis by (simp add: Let_def)
  next
    case False
    with h have "\<not> halted (vidpid_step env name s)" by simp
    from Cons.IH [OF this] h False show ?thesis by (simp add: Let_def)
  qed
qed

lemma get_device_list_halts:
  "fst (solaris_get_device_list env s) = None \<longleftrightarrow> pass_overruns env"
proof -
  have nh: "\<not> halted (emit s [Acquire Regex, Acquire (Dir dev_usb),
                                Log LOG_DEBUG (Start_browsing dev_usb)])"
    by (simp add: halted_emit is_overrun_simps)
  show ?thesis
    by (simp add: solaris_get_device_list_def pass_overruns_def Let_def
          halted_browse_vidpids [OF nh] split: option.splits)
qed

lemma not_halted_nomatch:
  "\<not> contains_vidpid name \<Longrightarrow> \<not> halted s \<Longrightarrow> \<not> halted (vidpid_step env name s)"
  by (simp add: vidpid_step_emit vidpid_events_nomatch halted_emit is_overrun_simps)

lemma resolver_calls_nomatch:
  "\<not> contains_vidpid name \<Longrightarrow>
   resolver_calls (trace (vidpid_step env name s)) = resolver_calls (trace s)"
  by (simp add: vidpid_step_emit vidpid_events_nomatch trace_emit resolver_calls_append
        resolver_calls_simps)

lemma resolver_calls_browse_from:
  "\<not> halted s \<Longrightarrow>
   resolver_calls (trace (browse_vidpids env names s)) =
     resolver_calls (trace s) @ resolver_calls (trace (browse_vidpids env names start))"
  by (simp add: browse_vidpids_emit trace_emit resolver_calls_append)

lemma resolver_calls_filter:
  "\<not> halted s \<Longrightarrow>
   resolver_calls (trace (browse_vidpids env names s)) =
     resolver_calls (trace (browse_vidpids env (filter contains_vidpid names) s))"
proof (induction names arbitrary: s)
  case Nil
  show ?case by simp
next
  case (Cons name rest)
  show ?case
  proof (cases "contains_vidpid name")
    case True
    then show ?thesis
      using Cons.IH [of "vidpid_step env name s"] by (simp add: Let_def)
  next
    case False
    note nh = not_halted_nomatch [OF False Cons.prems, of env]
    have "resolver_calls (trace (browse_vidpids env rest (vidpid_step env name s)))
            = resolver_calls (trace s) @ resolver_calls (trace (browse_vidpids env rest start))"
      by (simp add: resolver_calls_browse_from [OF nh] resolver_calls_nomatch [OF False])
    also have "\<dots> = resolver_calls (trace (browse_vidpids env rest s))"
      by (simp add: resolver_calls_browse_from [OF Cons.prems])
    also have "\<dots> = resolver_calls (trace (browse_vidpids env (filter contains_vidpid rest) s))"
      by (rule Cons.IH [OF Cons.prems])
    finally show ?thesis
      using False nh by (simp add: Let_def)
  qed
qed

lemma resolver_calls_walk:
  "resolver_calls (concat (map (vidpid_events env) names)) =
     concat (map (\<lambda>n. resolver_calls (vidpid_events env n)) (filter contains_vidpid names))"
  by (induction names)
     (simp_all add: resolver_calls_append resolver_calls_simps vidpid_events_nomatch)

text \<open>The definitions a run on the example tree unfolds.\<close>

lemmas eval_defs = usb_env_def tree_def hub_node_def plain_node_def noaddr_node_def
  noconf_node_def zeroconf_node_def wide_node_def node_of_def derived_identity_def
  add_device_node_def di_prop_get_int_def probe_speed_def atoi_def isspace_def isdigit_def
  digit_val_def Let_def

lemmas walk_defs = start_def emit_def halted_def halting_def is_overrun_def instance_step_def
  vidpid_step_def solaris_add_device_def solaris_get_device_list_def dotfile_def devices_def
  devices_len_def dev_usb_def vidpid_path_size_def devstat_path_size_def device_path_size_def

subsection \<open>What the specification says\<close>

text \<open>
  C1. The specification has it that a successful derivation appends one record to the collection
  passed into discovery. The code never writes to that collection: when the node opens,
  both required properties are found and the path has an \<^verbatim>\<open>@\<close>, the identity is
  computed once and reported in one message, at debug level, and \<^verbatim>\<open>discdevs\<close> is the
  same afterwards, for the resolver and for the whole discovery call.
\<close>

theorem add_device_registers_nothing:
  assumes "di_init env p = Some dn"
    and "fst (dn ''assigned-address'') = 1" and "fst (dn ''usb-num-configs'') = 1"
    and "CHR ''@'' \<in> set p"
  shows "\<exists>idn. derived_identity env p = Some idn
           \<and> discdevs (solaris_add_device env s p) = discdevs s
           \<and> sessions (trace (solaris_add_device env s p))
               = sessions (trace s) @ [(busnum idn, devaddr idn, session_id idn)]
           \<and> session_reports (trace (solaris_add_device env s p))
               = session_reports (trace s)
                 @ [Log LOG_DEBUG (Session (busnum idn) (devaddr idn) (session_id idn))]
           \<and> discdevs (snd (solaris_get_device_list env s)) = discdevs s"
proof -
  from assms(2-4) have "snd (add_device_node dn p) \<noteq> None"
    using add_device_node_Some_iff [of dn p] by blast
  then obtain idn where idn: "derived_identity env p = Some idn"
    by (auto simp: derived_identity_def assms(1))
  have "sessions (trace (solaris_add_device env s p))
          = sessions (trace s) @ [(busnum idn, devaddr idn, session_id idn)]"
    by (simp add: solaris_add_device_emit trace_emit sessions_append
          sessions_add_device_events idn)
  moreover have "session_reports (trace (solaris_add_device env s p))
               = session_reports (trace s)
                 @ [Log LOG_DEBUG (Session (busnum idn) (devaddr idn) (session_id idn))]"
    by (simp add: solaris_add_device_emit trace_emit session_reports_append
          session_reports_add_device_events idn)
  moreover have "discdevs (solaris_add_device env s p) = discdevs s"
    by (simp add: solaris_add_device_emit discdevs_emit)
  ultimately show ?thesis
    using idn get_device_list_discdevs by blast
qed

theorem add_device_registers_nothing_witness:
  "derived_identity usb_env ''/pci@0,0/device@7''
     = Some \<lparr>busnum = 0x12, devaddr = 7, numconf = 3, session_id = 0x1207,
              speed = LIBUSB_SPEED_FULL\<rparr>
   \<and> discdevs (solaris_add_device usb_env start ''/pci@0,0/device@7'') = []
   \<and> sessions (trace (solaris_add_device usb_env start ''/pci@0,0/device@7''))
       = [(0x12, 7, 0x1207)]
   \<and> session_reports (trace (solaris_add_device usb_env start ''/pci@0,0/device@7''))
       = [Log LOG_DEBUG (Session 0x12 7 0x1207)]
   \<and> discdevs (snd (solaris_get_device_list usb_env start)) = []"
proof -
  have h: "di_init usb_env ''/pci@0,0/device@7'' = Some plain_node"
    by (simp add: usb_env_def tree_def)
  have aa: "fst (plain_node ''assigned-address'') = 1"
    and nc: "fst (plain_node ''usb-num-configs'') = 1"
    by (simp_all add: plain_node_def node_of_def)
  have at: "CHR ''@'' \<in> set ''/pci@0,0/device@7''" by simp
  have v: "derived_identity usb_env ''/pci@0,0/device@7''
     = Some \<lparr>busnum = 0x12, devaddr = 7, numconf = 3, session_id = 0x1207,
              speed = LIBUSB_SPEED_FULL\<rparr>"
    by (simp add: eval_defs)
  from add_device_registers_nothing [OF h aa nc at, of start] show ?thesis
    by (simp add: v start_def sessions_simps session_reports_simps)
qed

theorem add_device_appends_counterexample:
  "derived_identity usb_env ''/pci@0,0/device@7'' \<noteq> None
   \<and> length (discdevs (solaris_add_device usb_env
        \<lparr>discdevs = ([] :: identity list), trace = []\<rparr> ''/pci@0,0/device@7''))
       \<noteq> Suc (length ([] :: identity list))"
  by (simp add: eval_defs solaris_add_device_emit discdevs_emit)

text \<open>
  C2. For every device that is resolved, the session identifier is
  \<open>(busnum << 8) | devaddr\<close>, where \<open>busnum\<close> is the value of the
  \<^verbatim>\<open>assigned-address\<close> property and \<open>devaddr\<close> is \<^verbatim>\<open>atoi\<close> of the text after
  the last \<^verbatim>\<open>@\<close> of the path. The equation is between the machine integers, with no
  hypothesis on their range; where the shift does not overflow it is the equation
  between the integers they stand for. Bus \<open>0x12\<close> and address \<open>0x34\<close> give
  \<open>0x1234\<close>.
\<close>

theorem session_id_packing:
  assumes "derived_identity env p = Some idn"
  shows "\<exists>dn a b. di_init env p = Some dn \<and> p = a @ CHR ''@'' # b \<and> CHR ''@'' \<notin> set b
           \<and> busnum idn = snd (dn ''assigned-address'')
           \<and> devaddr idn = atoi b
           \<and> session_id idn = scast (push_bit 8 (busnum idn) OR devaddr idn)
           \<and> (0 \<le> sint (busnum idn) \<and> sint (busnum idn) < 2 ^ 23 \<and> 0 \<le> sint (devaddr idn)
                \<longrightarrow> uint (session_id idn) = push_bit 8 (sint (busnum idn)) OR sint (devaddr idn))
           \<and> (busnum idn = 0x12 \<and> devaddr idn = 0x34 \<longrightarrow> session_id idn = 0x1234)"
proof -
  from assms obtain dn at where dn: "di_init env p = Some dn"
    and at: "strrchr p CHR ''@'' = Some at"
    and idn: "idn = \<lparr>busnum = snd (dn ''assigned-address''),
           devaddr = atoi (drop (Suc at) p),
           numconf = snd (dn ''usb-num-configs''),
           session_id = scast (push_bit 8 (snd (dn ''assigned-address'')) OR atoi (drop (Suc at) p)),
           speed = snd (probe_speed dn)\<rparr>"
    by (rule derived_identity_Some)
  from strrchr_Some_split [OF at]
  have psplit: "p = take at p @ CHR ''@'' # drop (Suc at) p" and plast: "CHR ''@'' \<notin> set (drop (Suc at) p)"
    by simp_all
  have sid: "session_id idn = scast (push_bit 8 (busnum idn) OR devaddr idn)"
    by (simp add: idn)
  have rd: "0 \<le> sint (busnum idn) \<and> sint (busnum idn) < 2 ^ 23 \<and> 0 \<le> sint (devaddr idn)
                \<longrightarrow> uint (session_id idn) = push_bit 8 (sint (busnum idn)) OR sint (devaddr idn)"
    unfolding sid using pack_nonneg by blast
  have ex: "busnum idn = 0x12 \<and> devaddr idn = 0x34 \<longrightarrow> session_id idn = 0x1234"
    unfolding sid by simp
  have "busnum idn = snd (dn ''assigned-address'')" "devaddr idn = atoi (drop (Suc at) p)"
    by (simp_all add: idn)
  with dn psplit plast sid rd ex show ?thesis by blast
qed

theorem session_id_packing_witness:
  "derived_identity usb_env ''/pci@0,0/pci106b,3f@6/device@52''
     = Some \<lparr>busnum = 0x12, devaddr = 0x34, numconf = 1, session_id = 0x1234,
              speed = LIBUSB_SPEED_LOW\<rparr>
   \<and> uint (0x1234 :: c_ulong) = push_bit 8 (sint (0x12 :: c_int)) OR sint (0x34 :: c_int)"
proof -
  have h: "derived_identity usb_env ''/pci@0,0/pci106b,3f@6/device@52''
     = Some \<lparr>busnum = 0x12, devaddr = 0x34, numconf = 1, session_id = 0x1234,
              speed = LIBUSB_SPEED_LOW\<rparr>"
    by (simp add: eval_defs)
  from session_id_packing [OF h] show ?thesis
    using h by simp
qed

text \<open>
  C3. The specification has it that a node without \<^verbatim>\<open>usb-num-configs\<close> still gives an identity,
  with one configuration, and that every identity has at least one. The code requires
  the property: if its lookup does not return exactly one value the candidate is
  dropped and nothing is reported; an identity, when there is one, carries the value of
  the property as it was read, whatever it is.
\<close>

theorem numconf_required:
  assumes "di_init env p = Some dn"
  shows "(fst (dn ''usb-num-configs'') \<noteq> 1
            \<longrightarrow> derived_identity env p = None \<and> sessions (add_device_events env p) = [])
       \<and> (\<forall>idn. derived_identity env p = Some idn
            \<longrightarrow> fst (dn ''usb-num-configs'') = 1 \<and> numconf idn = snd (dn ''usb-num-configs''))"
proof (intro conjI impI allI)
  assume "fst (dn ''usb-num-configs'') \<noteq> 1"
  then have "snd (add_device_node dn p) = None"
    using add_device_node_Some_iff [of dn p] by auto
  then show "derived_identity env p = None"
    by (simp add: derived_identity_def assms)
  then show "sessions (add_device_events env p) = []"
    by (simp add: sessions_add_device_events)
next
  fix idn
  assume "derived_identity env p = Some idn"
  then obtain dn' at where "di_init env p = Some dn'"
    and nc: "fst (dn' ''usb-num-configs'') = 1"
    and idn: "idn = \<lparr>busnum = snd (dn' ''assigned-address''),
           devaddr = atoi (drop (Suc at) p),
           numconf = snd (dn' ''usb-num-configs''),
           session_id = scast (push_bit 8 (snd (dn' ''assigned-address'')) OR atoi (drop (Suc at) p)),
           speed = snd (probe_speed dn')\<rparr>"
    by (rule derived_identity_Some)
  with assms have eq: "dn' = dn" by simp
  from nc eq show "fst (dn ''usb-num-configs'') = 1" by simp
  from idn eq show "numconf idn = snd (dn ''usb-num-configs'')" by simp
qed

theorem numconf_required_witness:
  "derived_identity usb_env ''/pci@0,0/device@4'' = None
   \<and> sessions (add_device_events usb_env ''/pci@0,0/device@4'') = []
   \<and> derived_identity usb_env ''/pci@0,0/device@7''
       = Some \<lparr>busnum = 0x12, devaddr = 7, numconf = 3, session_id = 0x1207,
                speed = LIBUSB_SPEED_FULL\<rparr>
   \<and> fst (plain_node ''usb-num-configs'') = 1
   \<and> snd (plain_node ''usb-num-configs'') = 3"
proof -
  have h4: "di_init usb_env ''/pci@0,0/device@4'' = Some noconf_node"
    by (simp add: usb_env_def tree_def)
  have n4: "fst (noconf_node ''usb-num-configs'') \<noteq> 1"
    by (simp add: noconf_node_def node_of_def)
  have h7: "di_init usb_env ''/pci@0,0/device@7'' = Some plain_node"
    by (simp add: usb_env_def tree_def)
  have v7: "derived_identity usb_env ''/pci@0,0/device@7''
       = Some \<lparr>busnum = 0x12, devaddr = 7, numconf = 3, session_id = 0x1207,
                speed = LIBUSB_SPEED_FULL\<rparr>"
    by (simp add: eval_defs)
  from numconf_required [OF h4] n4 numconf_required [OF h7] v7 show ?thesis
    by simp
qed

theorem numconf_default_counterexample:
  "di_init usb_env ''/pci@0,0/device@4'' = Some noconf_node
   \<and> fst (noconf_node ''assigned-address'') = 1
   \<and> fst (noconf_node ''usb-num-configs'') = - 1
   \<and> derived_identity usb_env ''/pci@0,0/device@4'' = None
   \<and> map_option numconf (derived_identity usb_env ''/pci@0,0/device@5'') = Some 0"
  by (simp add: eval_defs)


text \<open>
  C6. The speed of a resolved device is that of the first of \<^verbatim>\<open>low-speed\<close>,
  \<^verbatim>\<open>full-speed\<close>, \<^verbatim>\<open>high-speed\<close>, \<^verbatim>\<open>super-speed\<close> whose lookup returns a
  code of 0 or more, so that a property without a value counts; it is Full if there is
  none. The properties are looked up in that order, after the two required ones, and no
  further than the first that is present. A node with both \<^verbatim>\<open>low-speed\<close> and
  \<^verbatim>\<open>high-speed\<close> is Low; a node with none of the four is Full.
\<close>

theorem speed_priority:
  assumes "di_init env p = Some dn" and "derived_identity env p = Some idn"
  shows "speed idn = spec_speed dn
       \<and> lookups (add_device_events env p)
           = [''assigned-address'', ''usb-num-configs''] @ spec_probes dn
       \<and> (0 \<le> fst (dn ''low-speed'') \<and> 0 \<le> fst (dn ''high-speed'')
            \<longrightarrow> speed idn = LIBUSB_SPEED_LOW)
       \<and> (fst (dn ''low-speed'') < 0 \<and> fst (dn ''full-speed'') < 0
            \<and> fst (dn ''high-speed'') < 0 \<and> fst (dn ''super-speed'') < 0
            \<longrightarrow> speed idn = LIBUSB_SPEED_FULL)"
proof -
  from assms(2) obtain dn' at where "di_init env p = Some dn'"
    and aa: "fst (dn' ''assigned-address'') = 1" and nc: "fst (dn' ''usb-num-configs'') = 1"
    and at: "strrchr p CHR ''@'' = Some at"
    and idn: "idn = \<lparr>busnum = snd (dn' ''assigned-address''),
           devaddr = atoi (drop (Suc at) p),
           numconf = snd (dn' ''usb-num-configs''),
           session_id = scast (push_bit 8 (snd (dn' ''assigned-address'')) OR atoi (drop (Suc at) p)),
           speed = snd (probe_speed dn')\<rparr>"
    by (rule derived_identity_Some)
  with assms(1) have eq: "dn' = dn" by simp
  have sp: "speed idn = snd (probe_speed dn)"
    by (simp add: idn eq)
  have order: "lookups (add_device_events env p)
           = [''assigned-address'', ''usb-num-configs''] @ spec_probes dn"
    using aa nc at unfolding eq
    by (simp add: add_device_events_opened [OF assms(1)] add_device_node_events_Some
          lookups_append lookups_lookup_events lookups_probe_speed lookups_simps)
  from sp order show ?thesis
    by (simp add: spec_speed_probe probe_speed_snd)
qed

theorem speed_priority_witness:
  "speed \<lparr>busnum = 0x12, devaddr = 0x34, numconf = 1, session_id = 0x1234,
          speed = LIBUSB_SPEED_LOW\<rparr> = spec_speed hub_node
   \<and> spec_speed hub_node = LIBUSB_SPEED_LOW
   \<and> fst (hub_node ''low-speed'') = 0 \<and> fst (hub_node ''high-speed'') = 0
   \<and> lookups (add_device_events usb_env ''/pci@0,0/pci106b,3f@6/device@52'')
       = [''assigned-address'', ''usb-num-configs'', ''low-speed'']
   \<and> map_option speed (derived_identity usb_env ''/pci@0,0/device@7'') = Some LIBUSB_SPEED_FULL
   \<and> lookups (add_device_events usb_env ''/pci@0,0/device@7'')
       = [''assigned-address'', ''usb-num-configs'', ''low-speed'', ''full-speed'',
          ''high-speed'', ''super-speed'']"
proof -
  have h: "di_init usb_env ''/pci@0,0/pci106b,3f@6/device@52'' = Some hub_node"
    by (simp add: usb_env_def tree_def)
  have v: "derived_identity usb_env ''/pci@0,0/pci106b,3f@6/device@52''
     = Some \<lparr>busnum = 0x12, devaddr = 0x34, numconf = 1, session_id = 0x1234,
              speed = LIBUSB_SPEED_LOW\<rparr>"
    by (simp add: eval_defs)
  have h7: "di_init usb_env ''/pci@0,0/device@7'' = Some plain_node"
    by (simp add: usb_env_def tree_def)
  have v7: "derived_identity usb_env ''/pci@0,0/device@7''
       = Some \<lparr>busnum = 0x12, devaddr = 7, numconf = 3, session_id = 0x1207,
                speed = LIBUSB_SPEED_FULL\<rparr>"
    by (simp add: eval_defs)
  have probes: "spec_probes hub_node = [''low-speed'']"
    "spec_probes plain_node = [''low-speed'', ''full-speed'', ''high-speed'', ''super-speed'']"
    by (simp_all add: spec_probes_def speed_table_def hub_node_def plain_node_def node_of_def)
  have lows: "fst (hub_node ''low-speed'') = 0" "fst (hub_node ''high-speed'') = 0"
    by (simp_all add: hub_node_def node_of_def)
  from speed_priority [OF h v] speed_priority [OF h7 v7] show ?thesis
    by (simp add: probes lows v7)
qed

text \<open>
  C7. If the lookup of \<^verbatim>\<open>assigned-address\<close> on an open node returns anything but 1,
  no identity is derived and none is reported; the resolver looks up nothing else,
  releases the node and returns, leaving \<^verbatim>\<open>discdevs\<close> as it was. The resolver
  never halts the pass, and the walk goes on: from the state the resolver leaves, the
  events of the remaining instances follow, and after an instance or a group that did
  not halt the pass those of the remaining instances and groups; they are the events
  those entries produce on their own.
\<close>

theorem assigned_address_required:
  assumes "di_init env p = Some dn" and "fst (dn ''assigned-address'') \<noteq> 1"
  shows "derived_identity env p = None
       \<and> trace (solaris_add_device env s p)
           = trace s @ [Log LOG_INFO (Device_node p), Acquire (Node p),
                        Log LOG_DEBUG (Looking_for ''assigned-address''),
                        Log LOG_DEBUG (prop_msg dn ''assigned-address''),
                        Release (Node p)]
       \<and> (\<forall>v. prop_msg dn ''assigned-address'' \<noteq> Found_prop ''assigned-address'' v)
       \<and> sessions (trace (solaris_add_device env s p)) = sessions (trace s)
       \<and> discdevs (solaris_add_device env s p) = discdevs s
       \<and> \<not> halted (solaris_add_device env s p)
       \<and> trace (browse_instances env vp insts (solaris_add_device env s p))
           = trace (solaris_add_device env s p) @ trace (browse_instances env vp insts start)
       \<and> (\<not> halted (instance_step env vp inst s)
          \<longrightarrow> trace (browse_instances env vp (inst # insts) s)
                = trace (instance_step env vp inst s) @ trace (browse_instances env vp insts start))
       \<and> (\<not> halted (vidpid_step env name s)
          \<longrightarrow> trace (browse_vidpids env (name # names) s)
                = trace (vidpid_step env name s) @ trace (browse_vidpids env names start))"
proof -
  have none: "derived_identity env p = None"
    using assms by (simp add: derived_identity_def add_device_node_no_address)
  have tr: "trace (solaris_add_device env s p)
           = trace s @ [Log LOG_INFO (Device_node p), Acquire (Node p),
                        Log LOG_DEBUG (Looking_for ''assigned-address''),
                        Log LOG_DEBUG (prop_msg dn ''assigned-address''),
                        Release (Node p)]"
    using assms
    by (simp add: solaris_add_device_emit trace_emit add_device_events_opened
          add_device_node_no_address lookup_events_def)
  have msg: "\<forall>v. prop_msg dn ''assigned-address'' \<noteq> Found_prop ''assigned-address'' v"
    using assms(2) by (auto simp: prop_msg_def split: prod.splits)
  have ses: "sessions (trace (solaris_add_device env s p)) = sessions (trace s)"
    by (simp add: solaris_add_device_emit trace_emit sessions_append
          sessions_add_device_events none)
  have dd: "discdevs (solaris_add_device env s p) = discdevs s"
    by (simp add: solaris_add_device_emit discdevs_emit)
  have bi: "\<not> halted (instance_step env vp inst s)
          \<longrightarrow> trace (browse_instances env vp (inst # insts) s)
                = trace (instance_step env vp inst s) @ trace (browse_instances env vp insts start)"
    using browse_instances_continues by blast
  have bv: "\<not> halted (vidpid_step env name s)
          \<longrightarrow> trace (browse_vidpids env (name # names) s)
                = trace (vidpid_step env name s) @ trace (browse_vidpids env names start)"
    using browse_vidpids_continues by blast
  have af: "trace (browse_instances env vp insts (solaris_add_device env s p))
           = trace (solaris_add_device env s p) @ trace (browse_instances env vp insts start)"
    by (simp add: browse_instances_emit [OF not_halted_add_device] trace_emit)
  show ?thesis
    by (intro conjI none tr msg ses dd not_halted_add_device af bi bv)
qed

theorem assigned_address_required_witness:
  "derived_identity usb_env ''/pci@0,0/device@3'' = None
   \<and> trace (solaris_add_device usb_env start ''/pci@0,0/device@3'')
       = [Log LOG_INFO (Device_node ''/pci@0,0/device@3''),
          Acquire (Node ''/pci@0,0/device@3''),
          Log LOG_DEBUG (Looking_for ''assigned-address''),
          Log LOG_DEBUG (Prop_failed ''assigned-address''),
          Release (Node ''/pci@0,0/device@3'')]
   \<and> \<not> halted (instance_step usb_env ''/dev/usb/a12.1'' ''0'' start)
   \<and> resolver_calls (trace (instance_step usb_env ''/dev/usb/a12.1'' ''0'' start))
       = [''/pci@0,0/device@3'']
   \<and> sessions (trace (browse_instances usb_env ''/dev/usb/a12.1'' [''1'', ''2''] start))
       = [(0x12, 0x34, 0x1234), (0x12, 7, 0x1207)]
   \<and> sessions (trace (browse_instances usb_env ''/dev/usb/a12.1'' [''0'', ''1'', ''2''] start))
       = [(0x12, 0x34, 0x1234), (0x12, 7, 0x1207)]
   \<and> \<not> halted (vidpid_step usb_env ''a12.1'' start)
   \<and> trace (browse_vidpids usb_env [''a12.1'', ''hub0''] start)
       = trace (vidpid_step usb_env ''a12.1'' start)
         @ trace (browse_vidpids usb_env [''hub0''] start)"
proof -
  have h: "di_init usb_env ''/pci@0,0/device@3'' = Some noaddr_node"
    by (simp add: usb_env_def tree_def)
  have n: "fst (noaddr_node ''assigned-address'') \<noteq> 1"
    by (simp add: noaddr_node_def node_of_def)
  have m: "prop_msg noaddr_node ''assigned-address'' = Prop_failed ''assigned-address''"
    by (simp add: prop_msg_def noaddr_node_def node_of_def)
  have i0: "trace (instance_step usb_env ''/dev/usb/a12.1'' ''0'' start)
       = [Log LOG_DEBUG (Found_instance ''0''),
          Log LOG_INFO (Found_ugen ''/dev/usb/a12.1'' ''0''),
          Log LOG_DEBUG (Device_path ''/devices/pci@0,0/device@3:a12.1.devstat''),
          Log LOG_INFO (Device_node ''/pci@0,0/device@3''),
          Acquire (Node ''/pci@0,0/device@3''),
          Log LOG_DEBUG (Looking_for ''assigned-address''),
          Log LOG_DEBUG (Prop_failed ''assigned-address''),
          Release (Node ''/pci@0,0/device@3'')]"
    by (simp add: eval_defs walk_defs)
  have nh: "\<not> halted (instance_step usb_env ''/dev/usb/a12.1'' ''0'' start)"
    by (simp add: halted_def halting_def i0 is_overrun_simps)
  have rc: "resolver_calls (trace (instance_step usb_env ''/dev/usb/a12.1'' ''0'' start))
       = [''/pci@0,0/device@3'']"
    by (simp add: i0 resolver_calls_simps)
  have later: "sessions (trace (browse_instances usb_env ''/dev/usb/a12.1'' [''1'', ''2''] start))
       = [(0x12, 0x34, 0x1234), (0x12, 7, 0x1207)]"
    by (simp add: eval_defs walk_defs sessions_simps)
  note t = assigned_address_required [OF h n, where s = start and vp = "''/dev/usb/a12.1''"
      and inst = "''0''" and insts = "[''1'', ''2'']" and name = "''a12.1''"
      and names = "[''hub0'']"]
  from t have a: "derived_identity usb_env ''/pci@0,0/device@3'' = None"
    by (rule conjunct1)
  from t have b: "trace (solaris_add_device usb_env start ''/pci@0,0/device@3'')
       = [Log LOG_INFO (Device_node ''/pci@0,0/device@3''),
          Acquire (Node ''/pci@0,0/device@3''),
          Log LOG_DEBUG (Looking_for ''assigned-address''),
          Log LOG_DEBUG (Prop_failed ''assigned-address''),
          Release (Node ''/pci@0,0/device@3'')]"
    by (simp add: m trace_start)
  from t nh
  have "trace (browse_instances usb_env ''/dev/usb/a12.1'' [''0'', ''1'', ''2''] start)
       = trace (instance_step usb_env ''/dev/usb/a12.1'' ''0'' start)
         @ trace (browse_instances usb_env ''/dev/usb/a12.1'' [''1'', ''2''] start)"
    by (simp del: browse_instances.simps)
  then have rest: "sessions (trace (browse_instances usb_env ''/dev/usb/a12.1'' [''0'', ''1'', ''2''] start))
       = [(0x12, 0x34, 0x1234), (0x12, 7, 0x1207)]"
    by (simp add: sessions_append later i0 sessions_simps del: browse_instances.simps)
  have gv: "\<not> halted (vidpid_step usb_env ''a12.1'' start)"
    by (simp add: vidpid_step_emit halted_emit_unhalted [OF not_halted_start]
          halting_vidpid_events group_overruns_def overruns_def usb_env_def regexec_def
          match_here_def hexdigit_def dotfile_def dev_usb_def vidpid_path_size_def
          devstat_path_size_def device_path_size_def)
  from t [THEN conjunct2, THEN conjunct2, THEN conjunct2, THEN conjunct2, THEN conjunct2,
      THEN conjunct2, THEN conjunct2, THEN conjunct2] gv
  have g: "trace (browse_vidpids usb_env [''a12.1'', ''hub0''] start)
       = trace (vidpid_step usb_env ''a12.1'' start)
         @ trace (browse_vidpids usb_env [''hub0''] start)"
    by (simp del: browse_vidpids.simps)
  show ?thesis
    by (intro conjI a b nh rc later rest gv g)
qed

text \<open>
  C9. The specification has it that every path without \<^verbatim>\<open>@\<close> is discarded with an
  error diagnostic. A path without \<^verbatim>\<open>@\<close> gives no identity, reports none and leaves
  \<^verbatim>\<open>discdevs\<close> alone, but the search for \<^verbatim>\<open>@\<close> comes last: a node that does not open
  is reported as such, and a node without one of the two required properties is dropped
  with debug messages only. When the node opens and both required properties are read,
  the resolver logs the error, its only message of that level, and releases the node,
  and these are its last two events. A node that was opened is always released last.
  The resolver never halts the pass: after an instance or a group that did not halt it
  the remaining instances and groups follow, and a pass that is not halted returns the
  code for no devices. For a resolved device the address is \<^verbatim>\<open>atoi\<close> of the text after
  the last \<^verbatim>\<open>@\<close>: the number written by the leading digits whatever follows them, and
  0 if the text starts with a character that cannot start a number.
\<close>

theorem missing_at_discarded:
  "(CHR ''@'' \<notin> set p
      \<longrightarrow> derived_identity env p = None
          \<and> sessions (trace (solaris_add_device env s p)) = sessions (trace s)
          \<and> discdevs (solaris_add_device env s p) = discdevs s)
   \<and> (\<forall>dn. CHR ''@'' \<notin> set p \<and> di_init env p = Some dn
          \<and> fst (dn ''assigned-address'') = 1 \<and> fst (dn ''usb-num-configs'') = 1
      \<longrightarrow> trace (solaris_add_device env s p)
            = trace s @ [Log LOG_INFO (Device_node p), Acquire (Node p)]
                @ lookup_events dn ''assigned-address'' @ lookup_events dn ''usb-num-configs''
                @ concat (map (lookup_events dn) (spec_probes dn))
                @ [Log LOG_ERROR Parse_devaddr_failed, Release (Node p)])
   \<and> (\<forall>dn. CHR ''@'' \<notin> set p \<and> di_init env p = Some dn
          \<and> fst (dn ''assigned-address'') = 1 \<and> fst (dn ''usb-num-configs'') = 1
      \<longrightarrow> filter error_level (add_device_events env p) = [Log LOG_ERROR Parse_devaddr_failed])
   \<and> (\<forall>dn. di_init env p = Some dn
          \<and> (fst (dn ''assigned-address'') \<noteq> 1 \<or> fst (dn ''usb-num-configs'') \<noteq> 1)
      \<longrightarrow> filter error_level (add_device_events env p) = [])
   \<and> (di_init env p = None
      \<longrightarrow> add_device_events env p
            = [Log LOG_INFO (Device_node p), Log LOG_ERROR Di_init_failed])
   \<and> (\<forall>dn. di_init env p = Some dn \<longrightarrow> last (add_device_events env p) = Release (Node p))
   \<and> (\<forall>idn. derived_identity env p = Some idn
      \<longrightarrow> (\<exists>a b. p = a @ CHR ''@'' # b \<and> CHR ''@'' \<notin> set b \<and> devaddr idn = atoi b))
   \<and> (\<forall>ds r. list_all isdigit ds \<and> ds \<noteq> [] \<and> (case r of [] \<Rightarrow> True | c # _ \<Rightarrow> \<not> isdigit c)
      \<longrightarrow> atoi (ds @ r) = word_of_int (decimal ds))
   \<and> (\<forall>c cs. \<not> isdigit c \<and> \<not> isspace c \<and> c \<noteq> CHR ''-'' \<and> c \<noteq> CHR ''+''
      \<longrightarrow> atoi (c # cs) = 0)
   \<and> \<not> halted (solaris_add_device env s p)
   \<and> trace (browse_instances env vp insts (solaris_add_device env s p))
       = trace (solaris_add_device env s p) @ trace (browse_instances env vp insts start)
   \<and> (\<not> halted (instance_step env vp inst s)
      \<longrightarrow> trace (browse_instances env vp (inst # insts) s)
            = trace (instance_step env vp inst s) @ trace (browse_instances env vp insts start))
   \<and> (\<not> halted (vidpid_step env name s)
      \<longrightarrow> trace (browse_vidpids env (name # names) s)
            = trace (vidpid_step env name s) @ trace (browse_vidpids env names start))
   \<and> (regcomp_ok env \<and> opendir env dev_usb \<noteq> None
        \<and> \<not> halted (snd (solaris_get_device_list env s))
      \<longrightarrow> fst (solaris_get_device_list env s) = Some LIBUSB_ERROR_NO_DEVICE)"
proof -
  have none: "derived_identity env p = None" if "CHR ''@'' \<notin> set p"
  proof (cases "di_init env p")
    case None
    then show ?thesis by (simp add: derived_identity_def)
  next
    case (Some dn)
    from that have "snd (add_device_node dn p) = None"
      using add_device_node_Some_iff [of dn p] by auto
    with Some show ?thesis by (simp add: derived_identity_def)
  qed
  have c1: "CHR ''@'' \<notin> set p
      \<longrightarrow> derived_identity env p = None
          \<and> sessions (trace (solaris_add_device env s p)) = sessions (trace s)
          \<and> discdevs (solaris_add_device env s p) = discdevs s"
    by (simp add: none solaris_add_device_emit trace_emit discdevs_emit sessions_append
          sessions_add_device_events)
  have c2: "\<forall>dn. CHR ''@'' \<notin> set p \<and> di_init env p = Some dn
          \<and> fst (dn ''assigned-address'') = 1 \<and> fst (dn ''usb-num-configs'') = 1
      \<longrightarrow> trace (solaris_add_device env s p)
            = trace s @ [Log LOG_INFO (Device_node p), Acquire (Node p)]
                @ lookup_events dn ''assigned-address'' @ lookup_events dn ''usb-num-configs''
                @ concat (map (lookup_events dn) (spec_probes dn))
                @ [Log LOG_ERROR Parse_devaddr_failed, Release (Node p)]"
    by (simp add: solaris_add_device_emit trace_emit add_device_events_opened
          add_device_node_no_at probe_speed_events)
  have c2e: "\<forall>dn. CHR ''@'' \<notin> set p \<and> di_init env p = Some dn
          \<and> fst (dn ''assigned-address'') = 1 \<and> fst (dn ''usb-num-configs'') = 1
      \<longrightarrow> filter error_level (add_device_events env p) = [Log LOG_ERROR Parse_devaddr_failed]"
    by (simp add: add_device_events_opened add_device_node_no_at error_level_lookup_events
          error_level_probe_speed)
       (simp add: error_level_def)
  have c2n: "\<forall>dn. di_init env p = Some dn
          \<and> (fst (dn ''assigned-address'') \<noteq> 1 \<or> fst (dn ''usb-num-configs'') \<noteq> 1)
      \<longrightarrow> filter error_level (add_device_events env p) = []"
  proof (intro allI impI)
    fix dn
    assume a: "di_init env p = Some dn
          \<and> (fst (dn ''assigned-address'') \<noteq> 1 \<or> fst (dn ''usb-num-configs'') \<noteq> 1)"
    then have ev: "add_device_events env p =
        Log LOG_INFO (Device_node p) # Acquire (Node p) # fst (add_device_node dn p)
          @ [Release (Node p)]"
      by (simp add: add_device_events_opened)
    have "filter error_level (fst (add_device_node dn p)) = []"
    proof (cases "fst (dn ''assigned-address'') = 1")
      case False
      then show ?thesis
        by (simp add: add_device_node_no_address error_level_lookup_events)
    next
      case True
      with a have "fst (dn ''usb-num-configs'') \<noteq> 1" by simp
      with True show ?thesis
        by (simp add: add_device_node_no_configs error_level_lookup_events)
    qed
    then show "filter error_level (add_device_events env p) = []"
      by (simp add: ev error_level_def)
  qed
  have c2o: "di_init env p = None
      \<longrightarrow> add_device_events env p
            = [Log LOG_INFO (Device_node p), Log LOG_ERROR Di_init_failed]"
    by (simp add: add_device_events_unopened)
  have c2r: "\<forall>dn. di_init env p = Some dn \<longrightarrow> last (add_device_events env p) = Release (Node p)"
    by (simp add: add_device_events_opened)
  have c3: "\<forall>idn. derived_identity env p = Some idn
      \<longrightarrow> (\<exists>a b. p = a @ CHR ''@'' # b \<and> CHR ''@'' \<notin> set b \<and> devaddr idn = atoi b)"
  proof (intro allI impI)
    fix idn
    assume "derived_identity env p = Some idn"
    then obtain dn at where at: "strrchr p CHR ''@'' = Some at"
      and idn: "idn = \<lparr>busnum = snd (dn ''assigned-address''),
           devaddr = atoi (drop (Suc at) p),
           numconf = snd (dn ''usb-num-configs''),
           session_id = scast (push_bit 8 (snd (dn ''assigned-address'')) OR atoi (drop (Suc at) p)),
           speed = snd (probe_speed dn)\<rparr>"
      by (rule derived_identity_Some)
    from strrchr_Some_split [OF at] idn
    have "p = take at p @ CHR ''@'' # drop (Suc at) p \<and> CHR ''@'' \<notin> set (drop (Suc at) p)
            \<and> devaddr idn = atoi (drop (Suc at) p)"
      by simp
    then show "\<exists>a b. p = a @ CHR ''@'' # b \<and> CHR ''@'' \<notin> set b \<and> devaddr idn = atoi b"
      by blast
  qed
  have c4: "\<forall>ds r. list_all isdigit ds \<and> ds \<noteq> [] \<and> (case r of [] \<Rightarrow> True | c # _ \<Rightarrow> \<not> isdigit c)
      \<longrightarrow> atoi (ds @ r) = word_of_int (decimal ds)"
    using atoi_numeric_prefix by blast
  have c5: "\<forall>c cs. \<not> isdigit c \<and> \<not> isspace c \<and> c \<noteq> CHR ''-'' \<and> c \<noteq> CHR ''+''
      \<longrightarrow> atoi (c # cs) = 0"
    using atoi_no_number by blast
  have bi: "\<not> halted (instance_step env vp inst s)
      \<longrightarrow> trace (browse_instances env vp (inst # insts) s)
            = trace (instance_step env vp inst s) @ trace (browse_instances env vp insts start)"
    using browse_instances_continues by blast
  have bv: "\<not> halted (vidpid_step env name s)
      \<longrightarrow> trace (browse_vidpids env (name # names) s)
            = trace (vidpid_step env name s) @ trace (browse_vidpids env names start)"
    using browse_vidpids_continues by blast
  have c8: "regcomp_ok env \<and> opendir env dev_usb \<noteq> None
        \<and> \<not> halted (snd (solaris_get_device_list env s))
      \<longrightarrow> fst (solaris_get_device_list env s) = Some LIBUSB_ERROR_NO_DEVICE"
    by (auto simp: solaris_get_device_list_def Let_def split: option.splits if_splits)
  have af: "trace (browse_instances env vp insts (solaris_add_device env s p))
       = trace (solaris_add_device env s p) @ trace (browse_instances env vp insts start)"
    by (simp add: browse_instances_emit [OF not_halted_add_device] trace_emit)
  show ?thesis
    by (intro conjI c1 c2 c2e c2n c2o c2r c3 c4 c5 not_halted_add_device af bi bv c8)
qed

theorem missing_at_discarded_witness:
  "CHR ''@'' \<notin> set ''/pci/device''
   \<and> derived_identity usb_env ''/pci/device'' = None
   \<and> trace (solaris_add_device usb_env start ''/pci/device'')
       = [Log LOG_INFO (Device_node ''/pci/device''), Acquire (Node ''/pci/device''),
          Log LOG_DEBUG (Looking_for ''assigned-address''),
          Log LOG_DEBUG (Found_prop ''assigned-address'' 0x12),
          Log LOG_DEBUG (Looking_for ''usb-num-configs''),
          Log LOG_DEBUG (Found_prop ''usb-num-configs'' 3),
          Log LOG_DEBUG (Looking_for ''low-speed''),
          Log LOG_DEBUG (Prop_failed ''low-speed''),
          Log LOG_DEBUG (Looking_for ''full-speed''),
          Log LOG_DEBUG (Prop_failed ''full-speed''),
          Log LOG_DEBUG (Looking_for ''high-speed''),
          Log LOG_DEBUG (Prop_failed ''high-speed''),
          Log LOG_DEBUG (Looking_for ''super-speed''),
          Log LOG_DEBUG (Prop_failed ''super-speed''),
          Log LOG_ERROR Parse_devaddr_failed, Release (Node ''/pci/device'')]
   \<and> filter error_level (add_device_events usb_env ''/pci/device'')
       = [Log LOG_ERROR Parse_devaddr_failed]
   \<and> filter error_level (add_device_events usb_env ''/pci/hub'') = []
   \<and> add_device_events usb_env ''/pci/none''
       = [Log LOG_INFO (Device_node ''/pci/none''), Log LOG_ERROR Di_init_failed]
   \<and> map_option devaddr (derived_identity usb_env ''/pci@0,0/device@7'') = Some (atoi ''7'')
   \<and> atoi ''7'' = 7 \<and> atoi ''12abc'' = 12 \<and> atoi ''abc'' = 0
   \<and> last (add_device_events usb_env ''/pci/device'') = Release (Node ''/pci/device'')
   \<and> trace (browse_instances usb_env ''/dev/usb/a12.1'' [''0'', ''1''] start)
       = trace (instance_step usb_env ''/dev/usb/a12.1'' ''0'' start)
         @ trace (browse_instances usb_env ''/dev/usb/a12.1'' [''1''] start)
   \<and> trace (browse_vidpids usb_env [''a12.1'', ''hub0''] start)
       = trace (vidpid_step usb_env ''a12.1'' start)
         @ trace (browse_vidpids usb_env [''hub0''] start)
   \<and> fst (solaris_get_device_list usb_env start) = Some LIBUSB_ERROR_NO_DEVICE"
proof -
  note t = missing_at_discarded [where env = usb_env and p = "''/pci/device''" and s = start
      and vp = "''/dev/usb/a12.1''" and inst = "''0''" and insts = "[''1'']"
      and name = "''a12.1''" and names = "[''hub0'']"]
  note u = missing_at_discarded [where env = usb_env and p = "''/pci/hub''" and s = start
      and vp = "''/dev/usb/a12.1''" and inst = "''0''" and insts = "[''1'']"
      and name = "''a12.1''" and names = "[]"]
  note w = missing_at_discarded [where env = usb_env and p = "''/pci/none''" and s = start
      and vp = "''/dev/usb/a12.1''" and inst = "''0''" and insts = "[''1'']"
      and name = "''a12.1''" and names = "[]"]
  have noat: "CHR ''@'' \<notin> set ''/pci/device''" by simp
  have h: "di_init usb_env ''/pci/device'' = Some plain_node"
    by (simp add: usb_env_def tree_def)
  have aa: "fst (plain_node ''assigned-address'') = 1"
    and nc: "fst (plain_node ''usb-num-configs'') = 1"
    by (simp_all add: plain_node_def node_of_def)
  from t [THEN conjunct1] noat have a: "derived_identity usb_env ''/pci/device'' = None"
    by simp
  from t [THEN conjunct2, THEN conjunct1] noat h aa nc
  have "trace (solaris_add_device usb_env start ''/pci/device'')
            = trace start @ [Log LOG_INFO (Device_node ''/pci/device''), Acquire (Node ''/pci/device'')]
                @ lookup_events plain_node ''assigned-address''
                @ lookup_events plain_node ''usb-num-configs''
                @ concat (map (lookup_events plain_node) (spec_probes plain_node))
                @ [Log LOG_ERROR Parse_devaddr_failed, Release (Node ''/pci/device'')]"
    by simp
  then have b: "trace (solaris_add_device usb_env start ''/pci/device'')
       = [Log LOG_INFO (Device_node ''/pci/device''), Acquire (Node ''/pci/device''),
          Log LOG_DEBUG (Looking_for ''assigned-address''),
          Log LOG_DEBUG (Found_prop ''assigned-address'' 0x12),
          Log LOG_DEBUG (Looking_for ''usb-num-configs''),
          Log LOG_DEBUG (Found_prop ''usb-num-configs'' 3),
          Log LOG_DEBUG (Looking_for ''low-speed''),
          Log LOG_DEBUG (Prop_failed ''low-speed''),
          Log LOG_DEBUG (Looking_for ''full-speed''),
          Log LOG_DEBUG (Prop_failed ''full-speed''),
          Log LOG_DEBUG (Looking_for ''high-speed''),
          Log LOG_DEBUG (Prop_failed ''high-speed''),
          Log LOG_DEBUG (Looking_for ''super-speed''),
          Log LOG_DEBUG (Prop_failed ''super-speed''),
          Log LOG_ERROR Parse_devaddr_failed, Release (Node ''/pci/device'')]"
    by (simp add: trace_start lookup_events_def prop_msg_def spec_probes_def speed_table_def
          plain_node_def node_of_def)
  from t [THEN conjunct2, THEN conjunct2, THEN conjunct1] noat h aa nc
  have b': "filter error_level (add_device_events usb_env ''/pci/device'')
       = [Log LOG_ERROR Parse_devaddr_failed]"
    by simp
  have hh: "di_init usb_env ''/pci/hub'' = Some noaddr_node"
    by (simp add: usb_env_def tree_def)
  have na: "fst (noaddr_node ''assigned-address'') \<noteq> 1"
    by (simp add: noaddr_node_def node_of_def)
  from u [THEN conjunct2, THEN conjunct2, THEN conjunct2, THEN conjunct1] hh na
  have b2: "filter error_level (add_device_events usb_env ''/pci/hub'') = []"
    by simp
  have hn: "di_init usb_env ''/pci/none'' = None"
    by (simp add: usb_env_def tree_def)
  from w [THEN conjunct2, THEN conjunct2, THEN conjunct2, THEN conjunct2,
      THEN conjunct1] hn
  have b3: "add_device_events usb_env ''/pci/none''
       = [Log LOG_INFO (Device_node ''/pci/none''), Log LOG_ERROR Di_init_failed]"
    by simp
  have c: "map_option devaddr (derived_identity usb_env ''/pci@0,0/device@7'') = Some (atoi ''7'')"
    by (simp add: eval_defs)
  from t [THEN conjunct2, THEN conjunct2, THEN conjunct2, THEN conjunct2,
      THEN conjunct2, THEN conjunct2, THEN conjunct2, THEN conjunct1, rule_format, of "''7''" "[]"]
  have d1: "atoi ''7'' = 7"
    by (simp add: isdigit_def decimal_def digit_val_def)
  from t [THEN conjunct2, THEN conjunct2, THEN conjunct2, THEN conjunct2,
      THEN conjunct2, THEN conjunct2, THEN conjunct2, THEN conjunct1, rule_format, of "''12''" "''abc''"]
  have d2: "atoi ''12abc'' = 12"
    by (simp add: isdigit_def decimal_def digit_val_def)
  from t [THEN conjunct2, THEN conjunct2, THEN conjunct2, THEN conjunct2,
      THEN conjunct2, THEN conjunct2, THEN conjunct2, THEN conjunct2,
      THEN conjunct1, rule_format, of "CHR ''a''" "''bc''"]
  have d3: "atoi ''abc'' = 0"
    by (simp add: isdigit_def isspace_def)
  from t [THEN conjunct2, THEN conjunct2, THEN conjunct2, THEN conjunct2,
      THEN conjunct2, THEN conjunct1] h
  have r: "last (add_device_events usb_env ''/pci/device'') = Release (Node ''/pci/device'')"
    by simp
  have nh: "\<not> halted (instance_step usb_env ''/dev/usb/a12.1'' ''0'' start)"
    by (simp add: instance_step_emit halted_emit not_halted_start)
       (simp add: instance_events_def eval_defs walk_defs)
  from t [THEN conjunct2, THEN conjunct2, THEN conjunct2, THEN conjunct2,
      THEN conjunct2, THEN conjunct2, THEN conjunct2, THEN conjunct2,
      THEN conjunct2, THEN conjunct2, THEN conjunct2, THEN conjunct1] nh
  have f: "trace (browse_instances usb_env ''/dev/usb/a12.1'' [''0'', ''1''] start)
       = trace (instance_step usb_env ''/dev/usb/a12.1'' ''0'' start)
         @ trace (browse_instances usb_env ''/dev/usb/a12.1'' [''1''] start)"
    by (simp del: browse_instances.simps)
  have gv: "\<not> halted (vidpid_step usb_env ''a12.1'' start)"
    by (simp add: vidpid_step_emit halted_emit_unhalted [OF not_halted_start]
          halting_vidpid_events group_overruns_def overruns_def usb_env_def regexec_def
          match_here_def hexdigit_def dotfile_def dev_usb_def vidpid_path_size_def
          devstat_path_size_def device_path_size_def)
  from t [THEN conjunct2, THEN conjunct2, THEN conjunct2, THEN conjunct2,
      THEN conjunct2, THEN conjunct2, THEN conjunct2, THEN conjunct2,
      THEN conjunct2, THEN conjunct2, THEN conjunct2, THEN conjunct2,
      THEN conjunct1] gv
  have g: "trace (browse_vidpids usb_env [''a12.1'', ''hub0''] start)
       = trace (vidpid_step usb_env ''a12.1'' start)
         @ trace (browse_vidpids usb_env [''hub0''] start)"
    by (simp del: browse_vidpids.simps)
  have ro: "regcomp_ok usb_env \<and> opendir usb_env dev_usb \<noteq> None"
    by (simp add: usb_env_def dev_usb_def)
  have "\<not> pass_overruns usb_env"
    by (simp add: pass_overruns_def group_overruns_def overruns_def usb_env_def regexec_def
          match_here_def hexdigit_def dotfile_def dev_usb_def vidpid_path_size_def
          devstat_path_size_def device_path_size_def)
  with ro have u: "regcomp_ok usb_env \<and> opendir usb_env dev_usb \<noteq> None
      \<and> \<not> halted (snd (solaris_get_device_list usb_env start))"
    using get_device_list_returns [of usb_env start] get_device_list_halts [of usb_env start]
    by blast
  from t [THEN conjunct2, THEN conjunct2, THEN conjunct2, THEN conjunct2,
      THEN conjunct2, THEN conjunct2, THEN conjunct2, THEN conjunct2,
      THEN conjunct2, THEN conjunct2, THEN conjunct2, THEN conjunct2,
      THEN conjunct2] u
  have e: "fst (solaris_get_device_list usb_env start) = Some LIBUSB_ERROR_NO_DEVICE"
    by simp
  show ?thesis
    by (intro conjI noat a b b' b2 b3 c d1 d2 d3 r f g e)
qed

theorem missing_at_silent_counterexample:
  "CHR ''@'' \<notin> set ''/pci/hub''
   \<and> di_init usb_env ''/pci/hub'' = Some noaddr_node
   \<and> add_device_events usb_env ''/pci/hub''
       = [Log LOG_INFO (Device_node ''/pci/hub''), Acquire (Node ''/pci/hub''),
          Log LOG_DEBUG (Looking_for ''assigned-address''),
          Log LOG_DEBUG (Prop_failed ''assigned-address''),
          Release (Node ''/pci/hub'')]
   \<and> filter error_level (add_device_events usb_env ''/pci/hub'') = []"
  by (simp add: add_device_events_def eval_defs walk_defs error_level_def)

text \<open>
  The two early returns of \<^verbatim>\<open>solaris_get_device_list\<close>: nothing has been handed to the
  resolver, nothing is reported and \<^verbatim>\<open>discdevs\<close> is unchanged. A pass that gets past
  them returns nothing exactly if it halts, and it halts exactly if some instance of a
  browsed group resolves to a path that does not fit \<^verbatim>\<open>device_path\<close>.
\<close>

lemma early_returns:
  "(\<not> regcomp_ok env
      \<longrightarrow> solaris_get_device_list env s
            = (Some LIBUSB_ERROR_NO_MEM, emit s [Log LOG_ERROR Regcomp_failed]))
   \<and> (regcomp_ok env \<and> opendir env dev_usb = None
      \<longrightarrow> solaris_get_device_list env s
            = (Some LIBUSB_ERROR_ACCESS,
               emit s [Acquire Regex, Log LOG_ERROR (Opendir_failed dev_usb), Release Regex]))
   \<and> (fst (solaris_get_device_list env s) = Some LIBUSB_ERROR_NO_MEM \<longleftrightarrow> \<not> regcomp_ok env)
   \<and> (fst (solaris_get_device_list env s) = Some LIBUSB_ERROR_ACCESS
        \<longleftrightarrow> regcomp_ok env \<and> opendir env dev_usb = None)
   \<and> (fst (solaris_get_device_list env s) = None \<longleftrightarrow> pass_overruns env)"
proof -
  have c1: "\<not> regcomp_ok env
      \<longrightarrow> solaris_get_device_list env s
            = (Some LIBUSB_ERROR_NO_MEM, emit s [Log LOG_ERROR Regcomp_failed])"
    by (simp add: solaris_get_device_list_def)
  have c2: "regcomp_ok env \<and> opendir env dev_usb = None
      \<longrightarrow> solaris_get_device_list env s
            = (Some LIBUSB_ERROR_ACCESS,
               emit s [Acquire Regex, Log LOG_ERROR (Opendir_failed dev_usb), Release Regex])"
    by (simp add: solaris_get_device_list_def)
  have c3: "fst (solaris_get_device_list env s) = Some LIBUSB_ERROR_NO_MEM \<longleftrightarrow> \<not> regcomp_ok env"
    by (simp add: solaris_get_device_list_def Let_def split: option.splits)
  have c4: "fst (solaris_get_device_list env s) = Some LIBUSB_ERROR_ACCESS
        \<longleftrightarrow> regcomp_ok env \<and> opendir env dev_usb = None"
    by (simp add: solaris_get_device_list_def Let_def split: option.splits)
  show ?thesis
    by (intro conjI c1 c2 c3 c4 get_device_list_halts)
qed

text \<open>
  C8. The specification names two conditions that end a pass, a pattern that does not
  compile and a \<^verbatim>\<open>/dev/usb\<close> that does not open, and has every other failure skip one
  candidate. The code has a third: where \<^verbatim>\<open>/dev/usb\<close> opens and the pattern compiles,
  an instance behind three hubs resolves to a path of 74 characters, which
  \<^verbatim>\<open>realpath\<close> writes into the 71 bytes of \<^verbatim>\<open>device_path\<close>. The pass halts there: the
  call returns no code, and the second instance of the group, a device that resolves,
  is never visited.
\<close>

theorem device_path_overrun:
  "regcomp_ok long_env
   \<and> opendir long_env dev_usb = Some [''.'', ''..'', ''a12.1'']
   \<and> opendir long_env ''/dev/usb/a12.1'' = Some [''.'', ''..'', ''0'', ''1'']
   \<and> realpath long_env ''/dev/usb/a12.1/0/devstat''
       = Some ''/devices/pci@0,0/pci1028,20d@1d,7/hub@4/hub@2/hub@1/device@3:a12.1.devstat''
   \<and> length ''/devices/pci@0,0/pci1028,20d@1d,7/hub@4/hub@2/hub@1/device@3:a12.1.devstat'' = 74
   \<and> device_path_size = 71
   \<and> solaris_get_device_list long_env start
       = (None,
          \<lparr>discdevs = [],
           trace = [Acquire Regex, Acquire (Dir ''/dev/usb''),
                    Log LOG_DEBUG (Start_browsing ''/dev/usb''),
                    Log LOG_DEBUG (Found_entry ''a12.1''),
                    Acquire (Dir ''/dev/usb/a12.1''),
                    Log LOG_DEBUG (Start_browsing ''/dev/usb/a12.1''),
                    Log LOG_DEBUG (Found_instance ''0''),
                    Log LOG_INFO (Found_ugen ''/dev/usb/a12.1'' ''0''),
                    Overrun ''device_path'']\<rparr>)
   \<and> resolver_calls (instance_events long_env ''/dev/usb/a12.1'' ''1'')
       = [''/pci@0,0/pci106b,3f@6/device@52'']
   \<and> derived_identity long_env ''/pci@0,0/pci106b,3f@6/device@52''
       = Some \<lparr>busnum = 0x12, devaddr = 0x34, numconf = 1, session_id = 0x1234,
                speed = LIBUSB_SPEED_LOW\<rparr>"
proof -
  have a: "regcomp_ok long_env"
    "opendir long_env dev_usb = Some [''.'', ''..'', ''a12.1'']"
    "opendir long_env ''/dev/usb/a12.1'' = Some [''.'', ''..'', ''0'', ''1'']"
    "realpath long_env ''/dev/usb/a12.1/0/devstat''
       = Some ''/devices/pci@0,0/pci1028,20d@1d,7/hub@4/hub@2/hub@1/device@3:a12.1.devstat''"
    by (simp_all add: long_env_def dev_usb_def)
  have b: "length ''/devices/pci@0,0/pci1028,20d@1d,7/hub@4/hub@2/hub@1/device@3:a12.1.devstat'' = 74"
    "device_path_size = 71"
    by (simp_all add: device_path_size_def)
  have c: "solaris_get_device_list long_env start
       = (None,
          \<lparr>discdevs = [],
           trace = [Acquire Regex, Acquire (Dir ''/dev/usb''),
                    Log LOG_DEBUG (Start_browsing ''/dev/usb''),
                    Log LOG_DEBUG (Found_entry ''a12.1''),
                    Acquire (Dir ''/dev/usb/a12.1''),
                    Log LOG_DEBUG (Start_browsing ''/dev/usb/a12.1''),
                    Log LOG_DEBUG (Found_instance ''0''),
                    Log LOG_INFO (Found_ugen ''/dev/usb/a12.1'' ''0''),
                    Overrun ''device_path'']\<rparr>)"
    by (simp add: long_env_def walk_defs regexec_def match_here_def hexdigit_def
          REG_NOMATCH_def Let_def)
  have d: "resolver_calls (instance_events long_env ''/dev/usb/a12.1'' ''1'')
       = [''/pci@0,0/pci106b,3f@6/device@52'']"
    by (simp add: instance_events_def long_env_def eval_defs walk_defs resolver_calls_simps)
  have e: "derived_identity long_env ''/pci@0,0/pci106b,3f@6/device@52''
       = Some \<lparr>busnum = 0x12, devaddr = 0x34, numconf = 1, session_id = 0x1234,
                speed = LIBUSB_SPEED_LOW\<rparr>"
    by (simp add: long_env_def eval_defs)
  show ?thesis
    by (intro conjI a b c d e)
qed

text \<open>
  C4. The specification has it that only names that are entirely hex digits, a dot, hex digits are
  processed. The pattern is compiled without anchors and \<^verbatim>\<open>regexec\<close> searches the
  name: an entry is processed exactly if some substring of its name is hex digits, a
  dot, hex digits, which includes every name of the anchored form. An entry without
  such a substring is skipped, with a debug note unless it is a dot file, and nothing
  of it reaches the resolver: a walk hands the resolver what the walk over the entries
  with such a substring alone hands it, and over a walk that does not halt that is
  what each of those entries hands it on its own.
\<close>

theorem unanchored_group_filter:
  "(regexec name = 0 \<longleftrightarrow> contains_vidpid name)
   \<and> (spec_anchored_match name \<longrightarrow> contains_vidpid name)
   \<and> (\<not> contains_vidpid name
      \<longrightarrow> vidpid_step env name s
            = (if dotfile name then s else emit s [Log LOG_DEBUG (Skipping name)])
          \<and> resolver_calls (vidpid_events env name) = [])
   \<and> (\<not> halted s
      \<longrightarrow> resolver_calls (trace (browse_vidpids env names s))
            = resolver_calls (trace (browse_vidpids env (filter contains_vidpid names) s)))
   \<and> (\<not> halted (browse_vidpids env names s)
      \<longrightarrow> resolver_calls (trace (browse_vidpids env names s))
            = resolver_calls (trace s)
              @ concat (map (\<lambda>n. resolver_calls (vidpid_events env n))
                            (filter contains_vidpid names)))"
proof -
  have c3: "\<not> contains_vidpid name
      \<longrightarrow> vidpid_step env name s
            = (if dotfile name then s else emit s [Log LOG_DEBUG (Skipping name)])
          \<and> resolver_calls (vidpid_events env name) = []"
    by (simp add: vidpid_step_emit vidpid_events_nomatch emit_Nil resolver_calls_simps)
  have c4: "\<not> halted s
      \<longrightarrow> resolver_calls (trace (browse_vidpids env names s))
            = resolver_calls (trace (browse_vidpids env (filter contains_vidpid names) s))"
    using resolver_calls_filter by blast
  have c5: "\<not> halted (browse_vidpids env names s)
      \<longrightarrow> resolver_calls (trace (browse_vidpids env names s))
            = resolver_calls (trace s)
              @ concat (map (\<lambda>n. resolver_calls (vidpid_events env n))
                            (filter contains_vidpid names))"
    by (simp add: browse_vidpids_unhalted trace_emit resolver_calls_append
          resolver_calls_walk)
  from anchored_contains have c2: "spec_anchored_match name \<longrightarrow> contains_vidpid name"
    by blast
  show ?thesis
    by (intro conjI regexec_contains c2 c3 c4 c5)
qed

theorem unanchored_group_filter_witness:
  "regexec ''hub0'' = REG_NOMATCH
   \<and> vidpid_step usb_env ''hub0'' start = emit start [Log LOG_DEBUG (Skipping ''hub0'')]
   \<and> resolver_calls (vidpid_events usb_env ''hub0'') = []
   \<and> resolver_calls (trace (browse_vidpids usb_env [''hub0''] start)) = []
   \<and> spec_anchored_match ''a12.1'' \<and> regexec ''a12.1'' = 0"
proof -
  have r: "regexec ''hub0'' = REG_NOMATCH"
    by (simp add: regexec_def match_here_def hexdigit_def)
  have m: "spec_anchored_match ''a12.1''"
    by (simp add: spec_anchored_match_def hexdigit_def)
  note t = unanchored_group_filter [where name = "''hub0''" and env = usb_env and s = start
      and names = "[''hub0'']"]
  note u = unanchored_group_filter [where name = "''a12.1''" and env = usb_env and s = start
      and names = "[]"]
  from t [THEN conjunct1] r have n: "\<not> contains_vidpid ''hub0''"
    by (simp add: REG_NOMATCH_def)
  from t [THEN conjunct2, THEN conjunct2, THEN conjunct1] n
  have a: "vidpid_step usb_env ''hub0'' start = emit start [Log LOG_DEBUG (Skipping ''hub0'')]"
    and b: "resolver_calls (vidpid_events usb_env ''hub0'') = []"
    by (simp_all add: dotfile_def)
  from u [THEN conjunct2, THEN conjunct1] m have "contains_vidpid ''a12.1''"
    by simp
  with u [THEN conjunct1] have c: "regexec ''a12.1'' = 0"
    by simp
  from t [THEN conjunct2, THEN conjunct2, THEN conjunct2, THEN conjunct1] n not_halted_start
  have w1: "resolver_calls (trace (browse_vidpids usb_env [''hub0''] start)) = []"
    by (simp add: trace_start resolver_calls_simps del: browse_vidpids.simps)
       (simp add: trace_start resolver_calls_simps)
  have "\<not> halted (browse_vidpids usb_env [''hub0''] start)"
    using r by (simp add: halted_browse_vidpids [OF not_halted_start] group_overruns_def
          REG_NOMATCH_def del: browse_vidpids.simps)
  with t [THEN conjunct2, THEN conjunct2, THEN conjunct2, THEN conjunct2] n
  have w2: "resolver_calls (trace (browse_vidpids usb_env [''hub0''] start)) = []"
    by (simp add: trace_start resolver_calls_simps del: browse_vidpids.simps)
  show ?thesis
    by (intro conjI r a b w2 m c)
qed

theorem anchored_pattern_counterexample:
  "\<not> spec_anchored_match ''x1.2y''
   \<and> opendir usb_env ''/dev/usb/x1.2y'' = Some [''0'']
   \<and> resolver_calls (vidpid_events usb_env ''x1.2y'') = [''/a@1:b'']"
  by (simp add: spec_anchored_match_def vidpid_events_def eval_defs walk_defs regexec_def
        match_here_def hexdigit_def resolver_calls_simps)

text \<open>
  C5. The specification has it that the path is cut at the first colon after the prefix. The code
  searches with \<^verbatim>\<open>strrchr\<close>: when the resolved path fits the buffer
  \<^verbatim>\<open>device_path\<close> and is \<^verbatim>\<open>/devices\<close> followed by some text, the resolver gets
  the text up to its last colon, so that with several colons all but the last stay in
  the path; a text without a colon is passed whole, after a warning.
\<close>

theorem colon_truncation:
  assumes "\<not> dotfile inst"
    and "length (vp @ ''/'' @ inst @ ''/devstat'') < devstat_path_size"
    and "realpath env (vp @ ''/'' @ inst @ ''/devstat'') = Some (devices @ rest)"
    and "length (devices @ rest) < device_path_size"
  shows "(CHR '':'' \<notin> set rest
      \<longrightarrow> instance_step env vp inst s
            = solaris_add_device env
                (emit s [Log LOG_DEBUG (Found_instance inst), Log LOG_INFO (Found_ugen vp inst),
                         Log LOG_DEBUG (Device_path (devices @ rest)),
                         Log LOG_WARNING No_colon]) rest
          \<and> resolver_calls (instance_events env vp inst) = [rest])
   \<and> (\<forall>a b. rest = a @ CHR '':'' # b \<and> CHR '':'' \<notin> set b
      \<longrightarrow> instance_step env vp inst s
            = solaris_add_device env
                (emit s [Log LOG_DEBUG (Found_instance inst), Log LOG_INFO (Found_ugen vp inst),
                         Log LOG_DEBUG (Device_path (devices @ rest))]) a
          \<and> resolver_calls (instance_events env vp inst) = [a])"
proof -
  have pre: "take devices_len (devices @ rest) = devices" "drop devices_len (devices @ rest) = rest"
    by (simp_all add: devices_len_def)
  have step: "instance_step env vp inst s' =
     (case strrchr rest CHR '':'' of
        Some colon \<Rightarrow>
          solaris_add_device env
            (emit s' [Log LOG_DEBUG (Found_instance inst), Log LOG_INFO (Found_ugen vp inst),
                     Log LOG_DEBUG (Device_path (devices @ rest))]) (take colon rest)
      | None \<Rightarrow>
          solaris_add_device env
            (emit s' [Log LOG_DEBUG (Found_instance inst), Log LOG_INFO (Found_ugen vp inst),
                     Log LOG_DEBUG (Device_path (devices @ rest)),
                     Log LOG_WARNING No_colon]) rest)" for s' :: "'b state"
    using assms
    by (simp add: instance_step_def Let_def pre emit_emit del: take_append drop_append
          split: option.splits)
  have calls: "resolver_calls (instance_events env vp inst) = [q]"
    if "instance_step env vp inst start = solaris_add_device env (emit start evs) q"
      and "resolver_calls evs = []" for evs q
    using that
    by (simp add: instance_events_def solaris_add_device_emit trace_emit trace_start
          resolver_calls_append resolver_calls_add_device_events)
  have c1: "CHR '':'' \<notin> set rest
      \<longrightarrow> instance_step env vp inst s
            = solaris_add_device env
                (emit s [Log LOG_DEBUG (Found_instance inst), Log LOG_INFO (Found_ugen vp inst),
                         Log LOG_DEBUG (Device_path (devices @ rest)),
                         Log LOG_WARNING No_colon]) rest
          \<and> resolver_calls (instance_events env vp inst) = [rest]"
  proof
    assume "CHR '':'' \<notin> set rest"
    then have n: "strrchr rest CHR '':'' = None" by (simp add: strrchr_None_iff)
    have "resolver_calls (instance_events env vp inst) = [rest]"
      by (rule calls [OF step [of start, unfolded n option.case]])
         (simp add: resolver_calls_simps)
    with step [of s] n show "instance_step env vp inst s
            = solaris_add_device env
                (emit s [Log LOG_DEBUG (Found_instance inst), Log LOG_INFO (Found_ugen vp inst),
                         Log LOG_DEBUG (Device_path (devices @ rest)),
                         Log LOG_WARNING No_colon]) rest
          \<and> resolver_calls (instance_events env vp inst) = [rest]"
      by simp
  qed
  have c2: "\<forall>a b. rest = a @ CHR '':'' # b \<and> CHR '':'' \<notin> set b
      \<longrightarrow> instance_step env vp inst s
            = solaris_add_device env
                (emit s [Log LOG_DEBUG (Found_instance inst), Log LOG_INFO (Found_ugen vp inst),
                         Log LOG_DEBUG (Device_path (devices @ rest))]) a
          \<and> resolver_calls (instance_events env vp inst) = [a]"
  proof (intro allI impI)
    fix a b
    assume ab: "rest = a @ CHR '':'' # b \<and> CHR '':'' \<notin> set b"
    then have n: "strrchr rest CHR '':'' = Some (length a)"
      by (simp add: strrchr_last)
    from ab have tk: "take (length a) rest = a" by simp
    have "resolver_calls (instance_events env vp inst) = [a]"
      by (rule calls [OF step [of start, unfolded n option.case tk]])
         (simp add: resolver_calls_simps)
    with step [of s] n tk show "instance_step env vp inst s
            = solaris_add_device env
                (emit s [Log LOG_DEBUG (Found_instance inst), Log LOG_INFO (Found_ugen vp inst),
                         Log LOG_DEBUG (Device_path (devices @ rest))]) a
          \<and> resolver_calls (instance_events env vp inst) = [a]"
      by simp
  qed
  show ?thesis
    by (intro conjI c1 c2)
qed

theorem colon_truncation_witness:
  "resolver_calls (instance_events usb_env ''/dev/usb/a12.1'' ''2'') = [''/pci@0,0/device@7'']
   \<and> resolver_calls (instance_events usb_env ''/dev/usb/a12.1'' ''1'')
       = [''/pci@0,0/pci106b,3f@6/device@52'']
   \<and> resolver_calls (instance_events usb_env ''/dev/usb/x1.2y'' ''0'') = [''/a@1:b'']"
proof -
  have d: "\<not> dotfile ''2''" "\<not> dotfile ''1''" "\<not> dotfile ''0''"
    by (simp_all add: dotfile_def)
  have l2: "length (''/dev/usb/a12.1'' @ ''/'' @ ''2'' @ ''/devstat'') < devstat_path_size"
    and l1: "length (''/dev/usb/a12.1'' @ ''/'' @ ''1'' @ ''/devstat'') < devstat_path_size"
    and l0: "length (''/dev/usb/x1.2y'' @ ''/'' @ ''0'' @ ''/devstat'') < devstat_path_size"
    by (simp_all add: devstat_path_size_def)
  have r2: "realpath usb_env (''/dev/usb/a12.1'' @ ''/'' @ ''2'' @ ''/devstat'')
              = Some (devices @ ''/pci@0,0/device@7'')"
    and r1: "realpath usb_env (''/dev/usb/a12.1'' @ ''/'' @ ''1'' @ ''/devstat'')
              = Some (devices @ ''/pci@0,0/pci106b,3f@6/device@52:a12.1.devstat'')"
    and r0: "realpath usb_env (''/dev/usb/x1.2y'' @ ''/'' @ ''0'' @ ''/devstat'')
              = Some (devices @ ''/a@1:b:c'')"
    by (simp_all add: usb_env_def devices_def)
  have f2: "length (devices @ ''/pci@0,0/device@7'') < device_path_size"
    and f1: "length (devices @ ''/pci@0,0/pci106b,3f@6/device@52:a12.1.devstat'')
               < device_path_size"
    and f0: "length (devices @ ''/a@1:b:c'') < device_path_size"
    by (simp_all add: devices_def device_path_size_def)
  from colon_truncation [OF d(1) l2 r2 f2, where s = start, THEN conjunct1]
  have a: "resolver_calls (instance_events usb_env ''/dev/usb/a12.1'' ''2'') = [''/pci@0,0/device@7'']"
    by simp
  from colon_truncation [OF d(2) l1 r1 f1, where s = start, THEN conjunct2, rule_format,
      of "''/pci@0,0/pci106b,3f@6/device@52''" "''a12.1.devstat''"]
  have b: "resolver_calls (instance_events usb_env ''/dev/usb/a12.1'' ''1'')
       = [''/pci@0,0/pci106b,3f@6/device@52'']"
    by simp
  from colon_truncation [OF d(3) l0 r0 f0, where s = start, THEN conjunct2, rule_format,
      of "''/a@1:b''" "''c''"]
  have c: "resolver_calls (instance_events usb_env ''/dev/usb/x1.2y'' ''0'') = [''/a@1:b'']"
    by simp
  show ?thesis
    by (intro conjI a b c)
qed

theorem first_colon_counterexample:
  "realpath usb_env ''/dev/usb/x1.2y/0/devstat'' = Some ''/devices/a@1:b:c''
   \<and> resolver_calls (instance_events usb_env ''/dev/usb/x1.2y'' ''0'') = [''/a@1:b'']
   \<and> CHR '':'' \<in> set ''/a@1:b''"
  by (simp add: instance_events_def eval_defs walk_defs resolver_calls_simps)

text \<open>
  C10. The specification has it that every other backend function does nothing or returns the code
  for an absent device. That holds for all of them but two:
  \<^verbatim>\<open>solaris_cancel_transfer\<close> returns the code for an unsupported operation, and
  \<^verbatim>\<open>solaris_clock_gettime\<close> reads the system clock for the two clocks libusb knows
  and returns the code for an invalid parameter for any other.
\<close>

theorem stub_results:
  "solaris_open handle = LIBUSB_ERROR_NO_DEVICE
   \<and> solaris_close handle st = st
   \<and> solaris_get_device_descriptor dev buf = LIBUSB_ERROR_NO_DEVICE
   \<and> solaris_get_active_config_descriptor dev buf len = LIBUSB_ERROR_NO_DEVICE
   \<and> solaris_get_config_descriptor dev idx buf len = LIBUSB_ERROR_NO_DEVICE
   \<and> solaris_get_configuration handle = LIBUSB_ERROR_NO_DEVICE
   \<and> solaris_set_configuration handle config = LIBUSB_ERROR_NO_DEVICE
   \<and> solaris_claim_interface handle iface = LIBUSB_ERROR_NO_DEVICE
   \<and> solaris_release_interface handle iface = LIBUSB_ERROR_NO_DEVICE
   \<and> solaris_set_interface_altsetting handle iface altsetting = LIBUSB_ERROR_NO_DEVICE
   \<and> solaris_clear_halt handle endpoint = LIBUSB_ERROR_NO_DEVICE
   \<and> solaris_reset_device handle = LIBUSB_ERROR_NO_DEVICE
   \<and> solaris_destroy_device dev st = st
   \<and> solaris_submit_transfer itransfer = LIBUSB_ERROR_NO_DEVICE
   \<and> solaris_clear_transfer_priv itransfer st = st
   \<and> solaris_handle_events fds nfds num_ready = LIBUSB_ERROR_NO_DEVICE
   \<and> solaris_cancel_transfer itransfer = LIBUSB_ERROR_NOT_SUPPORTED
   \<and> (clkid = USBI_CLOCK_REALTIME
      \<longrightarrow> solaris_clock_gettime clock clkid
            = Sys (fst (clock CLOCK_REALTIME)) (snd (clock CLOCK_REALTIME)))
   \<and> (clkid = USBI_CLOCK_MONOTONIC
      \<longrightarrow> solaris_clock_gettime clock clkid
            = Sys (fst (clock CLOCK_MONOTONIC)) (snd (clock CLOCK_MONOTONIC)))
   \<and> (clkid \<noteq> USBI_CLOCK_REALTIME \<and> clkid \<noteq> USBI_CLOCK_MONOTONIC
      \<longrightarrow> solaris_clock_gettime clock clkid = Error LIBUSB_ERROR_INVALID_PARAM)"
  by (simp add: solaris_open_def solaris_close_def solaris_get_device_descriptor_def
        solaris_get_active_config_descriptor_def solaris_get_config_descriptor_def
        solaris_get_configuration_def solaris_set_configuration_def
        solaris_claim_interface_def solaris_release_interface_def
        solaris_set_interface_altsetting_def solaris_clear_halt_def solaris_reset_device_def
        solaris_destroy_device_def solaris_submit_transfer_def
        solaris_clear_transfer_priv_def solaris_handle_events_def
        solaris_cancel_transfer_def solaris_clock_gettime_def case_prod_beta)


theorem stub_results_witness:
  "solaris_clock_gettime fixed_clock USBI_CLOCK_REALTIME = Sys 0 42
   \<and> solaris_clock_gettime fixed_clock USBI_CLOCK_MONOTONIC = Sys 0 42
   \<and> solaris_clock_gettime fixed_clock (Other_clkid 7) = Error LIBUSB_ERROR_INVALID_PARAM
   \<and> solaris_cancel_transfer () = LIBUSB_ERROR_NOT_SUPPORTED
   \<and> solaris_open () = LIBUSB_ERROR_NO_DEVICE"
proof -
  have k: "Other_clkid 7 \<noteq> USBI_CLOCK_REALTIME \<and> Other_clkid 7 \<noteq> USBI_CLOCK_MONOTONIC"
    by simp
  from stub_results [where clock = fixed_clock and clkid = USBI_CLOCK_REALTIME
      and handle = "()" and st = "()" and dev = "()" and buf = "()" and len = 0
      and idx = 0 and config = 0 and iface = 0 and altsetting = 0 and endpoint = 0
      and itransfer = "()" and fds = "()" and nfds = 0 and num_ready = 0]
  have a: "solaris_clock_gettime fixed_clock USBI_CLOCK_REALTIME = Sys 0 42"
    and d: "solaris_cancel_transfer () = LIBUSB_ERROR_NOT_SUPPORTED"
    and e: "solaris_open () = LIBUSB_ERROR_NO_DEVICE"
    by (simp_all add: fixed_clock_def)
  from stub_results [where clock = fixed_clock and clkid = USBI_CLOCK_MONOTONIC
      and handle = "()" and st = "()" and dev = "()" and buf = "()" and len = 0
      and idx = 0 and config = 0 and iface = 0 and altsetting = 0 and endpoint = 0
      and itransfer = "()" and fds = "()" and nfds = 0 and num_ready = 0]
  have b: "solaris_clock_gettime fixed_clock USBI_CLOCK_MONOTONIC = Sys 0 42"
    by (simp add: fixed_clock_def)
  from stub_results [where clock = fixed_clock and clkid = "Other_clkid 7"
      and handle = "()" and st = "()" and dev = "()" and buf = "()" and len = 0
      and idx = 0 and config = 0 and iface = 0 and altsetting = 0 and endpoint = 0
      and itransfer = "()" and fds = "()" and nfds = 0 and num_ready = 0] k
  have c: "solaris_clock_gettime fixed_clock (Other_clkid 7) = Error LIBUSB_ERROR_INVALID_PARAM"
    by simp
  show ?thesis
    by (intro conjI a b c d e)
qed

theorem stubs_absent_counterexample:
  "solaris_cancel_transfer () \<noteq> LIBUSB_ERROR_NO_DEVICE
   \<and> solaris_clock_gettime fixed_clock USBI_CLOCK_REALTIME = Sys 0 42
   \<and> solaris_clock_gettime fixed_clock (Other_clkid 7) = Error LIBUSB_ERROR_INVALID_PARAM"
  by (simp add: solaris_cancel_transfer_def solaris_clock_gettime_def fixed_clock_def)

end
